theory Spec2Isabelle
  imports Complex_Main "HOL-Library.AList" "HOL-Library.Char_ord" "HOL-Library.List_Lexorder"
    "HOL-Library.Product_Lexorder"
begin

section \<open>Data model of generate_models.py\<close>

text \<open>
  The module builds msprime demographies from a dendropy species tree, draws their
  parameters with numpy and writes or reads them as yaml. The library objects the module
  touches are modelled by the fields and methods it uses.

  Python exceptions are values: every function that can raise returns
  \<open>error + 'a\<close>, with \<open>Inl\<close> the exception.
\<close>

datatype error =
    ValueError | KeyError | AttributeError | UnboundLocalError | IndexError | TypeError
  | Exception

text \<open>
  A numpy float. Every number the module computes is a rounded draw, a ceiling or a
  half of such numbers, so finite values are rationals; \<open>PosInf\<close> is \<open>np.inf\<close>,
  which \<open>_get_migration_stops\<close> starts its minimum from.
\<close>

datatype pyfloat = Fin rat | PosInf

text \<open>
  The msprime events the module creates: \<open>add_population_split\<close> appends a
  \<open>PopulationSplit\<close> (fields time, derived, ancestral), \<open>add_migration_rate_change\<close>
  a \<open>MigrationRateChange\<close> (time, rate, source, dest) and
  \<open>add_symmetric_migration_rate_change\<close> a \<open>SymmetricMigrationRateChange\<close>
  (time, populations, rate). \<open>hasattr(event, 'ancestral')\<close> holds of the first only,
  \<open>hasattr(event, 'rate')\<close> of the other two, \<open>hasattr(event, 'populations')\<close> of the
  last.
\<close>

datatype event =
    PopulationSplit pyfloat "string list" string
  | MigrationRateChange pyfloat rat string string
  | SymmetricMigrationRateChange pyfloat "string list" rat

fun event_time :: "event \<Rightarrow> pyfloat" where
  "event_time (PopulationSplit t d a) = t"
| "event_time (MigrationRateChange t r s d) = t"
| "event_time (SymmetricMigrationRateChange t ps r) = t"


fun has_rate :: "event \<Rightarrow> bool" where
  "has_rate (PopulationSplit t d a) = False"
| "has_rate _ = True"

record population =
  name :: string
  initial_size :: rat

text \<open>
  \<open>msprime.Demography\<close>: the population list, the event list and the migration matrix,
  kept as the list of the entries that were set (every other entry is 0), indexed by the
  positions of the two populations.
\<close>

record demography =
  populations :: "population list"
  events :: "event list"
  migration_matrix :: "((nat \<times> nat) \<times> rat) list"

text \<open>
  \<open>config['migration_df']\<close> is a pandas data frame: \<open>iterrows()\<close> gives each row with
  its index label, \<open>row.items()\<close> each cell of the row with its column name.
\<close>

type_synonym migration_df = "(string \<times> (string \<times> string) list) list"

section \<open>Migration Candidate Selector\<close>

subsection \<open>\<open>ModelBuilder._find_sc_to_include\<close>\<close>

text \<open>
  The first inner loop: \<open>if population[1] in event.derived and event.time != 0\<close> sets
  the flag. Reading \<open>event.derived\<close> of an event that is not a split raises.
\<close>

fun sc_mark_derived :: "string \<Rightarrow> event list \<Rightarrow> bool \<Rightarrow> error + bool" where
  "sc_mark_derived p [] inc = Inr inc"
| "sc_mark_derived p (PopulationSplit t d a # es) inc =
     sc_mark_derived p es (if p \<in> set d \<and> t \<noteq> Fin 0 then True else inc)"
| "sc_mark_derived p (e # es) inc = Inl AttributeError"

text \<open>
  The second inner loop: \<open>if population[1] == event.ancestral and event.time != 0\<close>
  clears the flag.
\<close>

fun sc_unmark_ancestral :: "string \<Rightarrow> event list \<Rightarrow> bool \<Rightarrow> error + bool" where
  "sc_unmark_ancestral p [] inc = Inr inc"
| "sc_unmark_ancestral p (PopulationSplit t d a # es) inc =
     sc_unmark_ancestral p es (if p = a \<and> t \<noteq> Fin 0 then False else inc)"
| "sc_unmark_ancestral p (e # es) inc = Inl AttributeError"

definition sc_check_population :: "event list \<Rightarrow> string \<Rightarrow> error + bool" where
  "sc_check_population es p =
     (case sc_mark_derived p es False of
        Inl e \<Rightarrow> Inl e
      | Inr inc \<Rightarrow> sc_unmark_ancestral p es inc)"

text \<open>One cell of the matrix: \<open>include = [False, False]\<close>, then the guarded checks.\<close>

definition sc_cell :: "event list \<Rightarrow> string \<Rightarrow> string \<Rightarrow> string \<Rightarrow> error + bool" where
  "sc_cell es index colname v =
     (if index \<noteq> colname \<and> v = ''T'' then
        (case sc_check_population es index of
           Inl e \<Rightarrow> Inl e
         | Inr i0 \<Rightarrow>
             (case sc_check_population es colname of
                Inl e \<Rightarrow> Inl e
              | Inr i1 \<Rightarrow> Inr (i0 \<and> i1)))
      else Inr False)"

fun sc_row ::
  "event list \<Rightarrow> string \<Rightarrow> (string \<times> string) list \<Rightarrow> (string \<times> string) list
     \<Rightarrow> error + (string \<times> string) list" where
  "sc_row es index [] acc = Inr acc"
| "sc_row es index ((colname, v) # row) acc =
     (case sc_cell es index colname v of
        Inl e \<Rightarrow> Inl e
      | Inr inc \<Rightarrow> sc_row es index row (if inc then acc @ [(index, colname)] else acc))"

fun sc_rows ::
  "event list \<Rightarrow> migration_df \<Rightarrow> (string \<times> string) list \<Rightarrow> error + (string \<times> string) list" where
  "sc_rows es [] acc = Inr acc"
| "sc_rows es ((index, row) # df) acc =
     (case sc_row es index row acc of
        Inl e \<Rightarrow> Inl e
      | Inr acc' \<Rightarrow> sc_rows es df acc')"

definition find_sc_to_include ::
  "migration_df \<Rightarrow> demography \<Rightarrow> error + (string \<times> string) list" where
  "find_sc_to_include df item = sc_rows (events item) df []"

subsection \<open>\<open>ModelBuilder._find_dwg_to_include\<close>\<close>

text \<open>
  \<open>if index in event.derived and colname in event.derived and event.time != 0\<close>
  sets the flag.
\<close>

fun dwg_mark :: "string \<Rightarrow> string \<Rightarrow> event list \<Rightarrow> bool \<Rightarrow> error + bool" where
  "dwg_mark p q [] inc = Inr inc"
| "dwg_mark p q (PopulationSplit t d a # es) inc =
     dwg_mark p q es (if p \<in> set d \<and> q \<in> set d \<and> t \<noteq> Fin 0 then True else inc)"
| "dwg_mark p q (e # es) inc = Inl AttributeError"

definition dwg_cell :: "event list \<Rightarrow> string \<Rightarrow> string \<Rightarrow> string \<Rightarrow> error + bool" where
  "dwg_cell es index colname v =
     (if index \<noteq> colname \<and> v = ''T'' then dwg_mark index colname es False
      else Inr False)"

fun dwg_row ::
  "event list \<Rightarrow> string \<Rightarrow> (string \<times> string) list \<Rightarrow> (string \<times> string) list
     \<Rightarrow> error + (string \<times> string) list" where
  "dwg_row es index [] acc = Inr acc"
| "dwg_row es index ((colname, v) # row) acc =
     (case dwg_cell es index colname v of
        Inl e \<Rightarrow> Inl e
      | Inr inc \<Rightarrow> dwg_row es index row (if inc then acc @ [(index, colname)] else acc))"

fun dwg_rows ::
  "event list \<Rightarrow> migration_df \<Rightarrow> (string \<times> string) list \<Rightarrow> error + (string \<times> string) list" where
  "dwg_rows es [] acc = Inr acc"
| "dwg_rows es ((index, row) # df) acc =
     (case dwg_row es index row acc of
        Inl e \<Rightarrow> Inl e
      | Inr acc' \<Rightarrow> dwg_rows es df acc')"

definition find_dwg_to_include ::
  "migration_df \<Rightarrow> demography \<Rightarrow> error + (string \<times> string) list" where
  "find_dwg_to_include df item = dwg_rows (events item) df []"

section \<open>Errors in sequence\<close>

text \<open>A statement that raises ends the function: the rest runs on a result only.\<close>

definition ebind :: "error + 'a \<Rightarrow> ('a \<Rightarrow> error + 'b) \<Rightarrow> error + 'b" where
  "ebind m f = (case m of Inl e \<Rightarrow> Inl e | Inr x \<Rightarrow> f x)"

section \<open>Species tree and configuration\<close>

text \<open>
  A dendropy node: its label, the label of its taxon (\<open>None\<close> when it has no taxon) and
  its children. A node without children is a leaf, any other node is internal. dendropy
  compares nodes by identity; here two nodes are equal when their subtrees are, which
  tells the nodes of a tree apart whenever their labels do.
\<close>

datatype node = Node (node_label: "string option") (taxon_label: "string option")
  (child_nodes: "node list")

text \<open>
  \<open>Tree.internal_nodes()\<close> lists the internal nodes in preorder, the seed node first;
  \<open>postorder_internal_node_iter()\<close> of a node (or of the tree, from its seed node) visits
  the internal nodes of the subtree in postorder, the node itself last.
\<close>

fun preorder_internal_node_iter :: "node \<Rightarrow> node list" where
  "preorder_internal_node_iter (Node l t cs) =
     (if cs = [] then []
      else Node l t cs # concat (map preorder_internal_node_iter cs))"

fun postorder_internal_node_iter :: "node \<Rightarrow> node list" where
  "postorder_internal_node_iter (Node l t cs) =
     (if cs = [] then []
      else concat (map postorder_internal_node_iter cs) @ [Node l t cs])"

record config =
  species_tree :: node
  migration_df :: migration_df
  symmetric :: bool
  max_migration_events :: int
  replicates :: nat
  migration_rate :: "rat \<times> rat"
  secondary_contact :: bool
  divergence_with_gene_flow :: bool

definition internal_nodes :: "config \<Rightarrow> node list" where
  "internal_nodes cfg = preorder_internal_node_iter (species_tree cfg)"

text \<open>\<open>str(label).strip("'")\<close>: \<open>str(None)\<close> is the word None.\<close>

definition py_str :: "string option \<Rightarrow> string" where
  "py_str l = (case l of None \<Rightarrow> ''None'' | Some s \<Rightarrow> s)"

definition strip_quote :: "string \<Rightarrow> string" where
  "strip_quote s =
     rev (dropWhile (\<lambda>c. c = CHR 0x27) (rev (dropWhile (\<lambda>c. c = CHR 0x27) s)))"

section \<open>Demographies\<close>

definition empty_demography :: demography where
  "empty_demography = \<lparr>populations = [], events = [], migration_matrix = []\<rparr>"

text \<open>
  \<open>str.isidentifier\<close> on a name of ASCII characters: a letter or an underscore, then
  letters, digits and underscores.
\<close>

definition is_identifier_start :: "char \<Rightarrow> bool" where
  "is_identifier_start c =
     ((CHR ''a'' \<le> c \<and> c \<le> CHR ''z'') \<or> (CHR ''A'' \<le> c \<and> c \<le> CHR ''Z'') \<or> c = CHR ''_'')"

definition is_identifier_continue :: "char \<Rightarrow> bool" where
  "is_identifier_continue c = (is_identifier_start c \<or> (CHR ''0'' \<le> c \<and> c \<le> CHR ''9''))"

fun isidentifier :: "string \<Rightarrow> bool" where
  "isidentifier [] = False"
| "isidentifier (c # cs) = (is_identifier_start c \<and> list_all is_identifier_continue cs)"

text \<open>
  \<open>Demography.add_population\<close> appends the population and validates the populations: it
  raises \<open>ValueError\<close> for a name that is not an identifier and for a name that a
  population of the demography has already.
\<close>

definition add_population :: "string \<Rightarrow> rat \<Rightarrow> demography \<Rightarrow> error + demography" where
  "add_population n s d =
     (if \<not> isidentifier n \<or> n \<in> set (map name (populations d)) then Inl ValueError
      else Inr (d\<lparr>populations := populations d @ [\<lparr>name = n, initial_size = s\<rparr>]\<rparr>))"

definition add_event :: "event \<Rightarrow> demography \<Rightarrow> demography" where
  "add_event e d = d\<lparr>events := events d @ [e]\<rparr>"

text \<open>The position of the population of a name, which is its id.\<close>

fun pop_id :: "string \<Rightarrow> population list \<Rightarrow> nat option" where
  "pop_id n [] = None"
| "pop_id n (p # ps) =
     (if name p = n then Some 0 else map_option Suc (pop_id n ps))"

text \<open>
  \<open>Demography.add_population_split\<close> looks the derived populations and the ancestral
  population up by name, which raises \<open>KeyError\<close> for a name that no population of the
  demography has, and appends the event.
\<close>

definition add_population_split ::
  "pyfloat \<Rightarrow> string list \<Rightarrow> string \<Rightarrow> demography \<Rightarrow> error + demography" where
  "add_population_split t derived ancestral d =
     (if list_all (\<lambda>p. pop_id p (populations d) \<noteq> None) (derived @ [ancestral])
      then Inr (add_event (PopulationSplit t derived ancestral) d)
      else Inl KeyError)"

text \<open>
  \<open>set_migration_rate\<close> and \<open>set_symmetric_migration_rate\<close> look both populations up by
  name, which raises for an unknown name, and write the matrix.
\<close>

definition set_migration_rate ::
  "string \<Rightarrow> string \<Rightarrow> rat \<Rightarrow> demography \<Rightarrow> error + demography" where
  "set_migration_rate s t r d =
     (case pop_id s (populations d) of
        None \<Rightarrow> Inl KeyError
      | Some i \<Rightarrow>
          (case pop_id t (populations d) of
             None \<Rightarrow> Inl KeyError
           | Some j \<Rightarrow>
               Inr (d\<lparr>migration_matrix := AList.update (i, j) r (migration_matrix d)\<rparr>)))"

definition set_symmetric_migration_rate ::
  "string \<Rightarrow> string \<Rightarrow> rat \<Rightarrow> demography \<Rightarrow> error + demography" where
  "set_symmetric_migration_rate s t r d =
     (case pop_id s (populations d) of
        None \<Rightarrow> Inl KeyError
      | Some i \<Rightarrow>
          (case pop_id t (populations d) of
             None \<Rightarrow> Inl KeyError
           | Some j \<Rightarrow>
               Inr (d\<lparr>migration_matrix :=
                      AList.update (j, i) r (AList.update (i, j) r (migration_matrix d))\<rparr>)))"

text \<open>
  \<open>sort_events\<close> sorts the events by time and keeps events of equal time in the order they
  had. The key puts \<open>np.inf\<close> after every finite time.
\<close>

fun time_key :: "pyfloat \<Rightarrow> bool \<times> rat" where
  "time_key (Fin r) = (False, r)"
| "time_key PosInf = (True, 0)"

definition sort_events :: "demography \<Rightarrow> demography" where
  "sort_events d = d\<lparr>events := sort_key (\<lambda>e. time_key (event_time e)) (events d)\<rparr>"

section \<open>Topology Enumerator\<close>

text \<open>\<open>itertools.combinations(xs, r)\<close>: the sublists of length r, in the order of the positions.\<close>

fun combinations :: "'a list \<Rightarrow> nat \<Rightarrow> 'a list list" where
  "combinations xs 0 = [[]]"
| "combinations [] (Suc r) = []"
| "combinations (x # xs) (Suc r) =
     map ((#) x) (combinations xs r) @ combinations xs (Suc r)"

subsection \<open>\<open>ModelBuilder._remove_conflicting\<close>\<close>

text \<open>
  The inner loop \<open>for node in combo\<close> assigns \<open>child_nodes\<close> once per node and nothing
  reads it inside the loop; the test \<open>len(child_nodes) == 0\<close> follows the loop. The
  variable is a local of the function: it is unbound until the first assignment and
  keeps its value from one combination to the next.
\<close>

fun child_nodes_loop :: "node list \<Rightarrow> node list \<Rightarrow> node list option \<Rightarrow> node list option" where
  "child_nodes_loop combo [] cn = cn"
| "child_nodes_loop combo (n # ns) cn =
     child_nodes_loop combo ns
       (Some (filter (\<lambda>child. child \<notin> set combo) (postorder_internal_node_iter n)))"

fun remove_conflicting_loop ::
  "node list list \<Rightarrow> node list option \<Rightarrow> node list list \<Rightarrow> error + node list list" where
  "remove_conflicting_loop [] cn keep_combos = Inr keep_combos"
| "remove_conflicting_loop (combo # rest) cn keep_combos =
     (case child_nodes_loop combo combo cn of
        None \<Rightarrow> Inl UnboundLocalError
      | Some c \<Rightarrow>
          remove_conflicting_loop rest (Some c)
            (if length c = 0 then keep_combos @ [combo] else keep_combos))"

definition remove_conflicting :: "node list list \<Rightarrow> error + node list list" where
  "remove_conflicting all_combos = remove_conflicting_loop all_combos None []"

subsection \<open>\<open>ModelBuilder._get_derived_populations\<close>\<close>

definition child_name :: "node \<Rightarrow> error + string" where
  "child_name x =
     (case node_label x of
        Some l \<Rightarrow> Inr l
      | None \<Rightarrow> (case taxon_label x of Some t \<Rightarrow> Inr t | None \<Rightarrow> Inl AttributeError))"

fun child_names :: "node list \<Rightarrow> error + string list" where
  "child_names [] = Inr []"
| "child_names (x # xs) =
     ebind (child_name x) (\<lambda>n. ebind (child_names xs) (\<lambda>ns. Inr (n # ns)))"

text \<open>Unpacking into two names raises unless the node has exactly two children.\<close>

definition get_derived_populations :: "node \<Rightarrow> error + (string \<times> string)" where
  "get_derived_populations internal_node =
     ebind (child_names (child_nodes internal_node))
       (\<lambda>ns. case ns of [d1, d2] \<Rightarrow> Inr (d1, d2) | _ \<Rightarrow> Inl ValueError)"

subsection \<open>\<open>ModelBuilder._create_divergence_demographies\<close>\<close>

definition collapse_combos :: "config \<Rightarrow> node list list" where
  "collapse_combos cfg =
     (let collapsable_nodes = internal_nodes cfg
      in concat (map (combinations collapsable_nodes) [1 ..< length collapsable_nodes + 1]))"

fun add_derived_populations :: "node list \<Rightarrow> node list \<Rightarrow> demography \<Rightarrow> error + demography" where
  "add_derived_populations combo [] d = Inr d"
| "add_derived_populations combo (n # ns) d =
     (if n \<notin> set combo then
        ebind (get_derived_populations n)
          (\<lambda>(derived_1, derived_2).
             ebind (add_population derived_1 1000 d)
               (\<lambda>d1. ebind (add_population derived_2 1000 d1)
                  (add_derived_populations combo ns)))
      else add_derived_populations combo ns d)"

fun add_splits :: "node list \<Rightarrow> node list \<Rightarrow> demography \<Rightarrow> error + demography" where
  "add_splits combo [] d = Inr d"
| "add_splits combo (n # ns) d =
     (if n \<notin> set combo then
        ebind (get_derived_populations n)
          (\<lambda>(derived_1, derived_2).
             ebind (add_population_split (Fin 1000) [derived_1, derived_2]
                      (strip_quote (py_str (node_label n))) d)
               (add_splits combo ns))
      else add_splits combo ns d)"

definition combo_demography :: "config \<Rightarrow> node list \<Rightarrow> error + demography" where
  "combo_demography cfg combo =
     ebind (add_derived_populations combo (postorder_internal_node_iter (species_tree cfg))
              empty_demography)
       (\<lambda>d. ebind (add_population (strip_quote (py_str (node_label (species_tree cfg)))) 1000 d)
               (add_splits combo (postorder_internal_node_iter (species_tree cfg))))"

fun combo_demographies :: "config \<Rightarrow> node list list \<Rightarrow> error + demography list" where
  "combo_demographies cfg [] = Inr []"
| "combo_demographies cfg (combo # rest) =
     ebind (combo_demography cfg combo)
       (\<lambda>d. ebind (combo_demographies cfg rest) (\<lambda>ds. Inr (d # ds)))"

text \<open>The combinations that are kept, with the empty one appended.\<close>

definition kept_combos :: "config \<Rightarrow> error + node list list" where
  "kept_combos cfg =
     ebind (remove_conflicting (collapse_combos cfg)) (\<lambda>all_combos. Inr (all_combos @ [[]]))"

definition create_divergence_demographies :: "config \<Rightarrow> error + demography list" where
  "create_divergence_demographies cfg = ebind (kept_combos cfg) (combo_demographies cfg)"

section \<open>Migration topologies\<close>

text \<open>\<open>sorted(set(pairs))\<close>, and the same after each pair has been sorted.\<close>

definition sorted_set :: "(string \<times> string) list \<Rightarrow> (string \<times> string) list" where
  "sorted_set ps = sort (remdups ps)"

definition sorted_pair :: "string \<times> string \<Rightarrow> string \<times> string" where
  "sorted_pair pair = (if fst pair \<le> snd pair then pair else (snd pair, fst pair))"

text \<open>
  \<open>combinations(to_include, r) for r in range(1, min(max migration events,
  len(to_include)) + 1)\<close>, chained.
\<close>

definition combos_of_migration :: "int \<Rightarrow> 'a list \<Rightarrow> 'a list list" where
  "combos_of_migration max_events to_include =
     concat (map (combinations to_include)
       [1 ..< nat (min max_events (int (length to_include)) + 1)])"

subsection \<open>\<open>ModelBuilder._create_sc_demographies\<close>\<close>

text \<open>
  One population pair of a combination: the migration rate at the placeholder 1e-3 and
  the event that stops it at the placeholder time 100.
\<close>

definition sc_add_pair :: "bool \<Rightarrow> string \<times> string \<Rightarrow> demography \<Rightarrow> error + demography" where
  "sc_add_pair symm populationpair d =
     (if symm then
        ebind (set_symmetric_migration_rate (fst populationpair) (snd populationpair) (1 / 1000) d)
          (\<lambda>d'. Inr (add_event
             (SymmetricMigrationRateChange (Fin 100) [fst populationpair, snd populationpair] 0) d'))
      else
        ebind (set_migration_rate (fst populationpair) (snd populationpair) (1 / 1000) d)
          (\<lambda>d'. Inr (add_event
             (MigrationRateChange (Fin 100) 0 (fst populationpair) (snd populationpair)) d')))"

fun sc_add_pairs :: "bool \<Rightarrow> (string \<times> string) list \<Rightarrow> demography \<Rightarrow> error + demography" where
  "sc_add_pairs symm [] d = Inr d"
| "sc_add_pairs symm (pair # combo) d = ebind (sc_add_pair symm pair d) (sc_add_pairs symm combo)"

fun sc_combos :: "bool \<Rightarrow> demography \<Rightarrow> (string \<times> string) list list \<Rightarrow> error + demography list" where
  "sc_combos symm item [] = Inr []"
| "sc_combos symm item (combo # rest) =
     ebind (sc_add_pairs symm combo item)
       (\<lambda>d. ebind (sc_combos symm item rest) (\<lambda>ds. Inr (sort_events d # ds)))"

text \<open>
  The loop over the divergence demographies. \<open>to_include\<close> is assigned in the branch
  \<open>if self.config['symmetric']\<close> and nowhere else, and read right after it; it is a local
  of the function, unbound until that assignment and kept from one demography to the next.
\<close>

fun sc_items ::
  "config \<Rightarrow> demography list \<Rightarrow> (string \<times> string) list option \<Rightarrow> error + demography list" where
  "sc_items cfg [] to_include = Inr []"
| "sc_items cfg (item # items) to_include =
     ebind (find_sc_to_include (migration_df cfg) item)
       (\<lambda>found.
          let to_include_base = sorted_set found;
              to_include' =
                (if symmetric cfg then Some (sorted_set (map sorted_pair to_include_base))
                 else to_include)
          in case to_include' of
               None \<Rightarrow> Inl UnboundLocalError
             | Some ti \<Rightarrow>
                 ebind (sc_combos (symmetric cfg) item
                          (combos_of_migration (max_migration_events cfg) ti))
                   (\<lambda>ds. ebind (sc_items cfg items to_include') (\<lambda>rest. Inr (ds @ rest))))"

definition create_sc_demographies :: "config \<Rightarrow> demography list \<Rightarrow> error + demography list" where
  "create_sc_demographies cfg divergence_demographies =
     sc_items cfg divergence_demographies None"

subsection \<open>\<open>ModelBuilder._create_dwg_demographies\<close>\<close>

definition dwg_add_pair :: "bool \<Rightarrow> string \<times> string \<Rightarrow> demography \<Rightarrow> demography" where
  "dwg_add_pair symm populationpair d =
     (if symm then
        add_event
          (SymmetricMigrationRateChange (Fin 100) [fst populationpair, snd populationpair]
             (1 / 1000)) d
      else
        add_event
          (MigrationRateChange (Fin 100) (1 / 1000) (fst populationpair) (snd populationpair)) d)"

definition dwg_combos ::
  "bool \<Rightarrow> demography \<Rightarrow> (string \<times> string) list list \<Rightarrow> demography list" where
  "dwg_combos symm item combos =
     map (\<lambda>combo. sort_events (fold (dwg_add_pair symm) combo item)) combos"

fun dwg_items ::
  "config \<Rightarrow> demography list \<Rightarrow> (string \<times> string) list option \<Rightarrow> error + demography list" where
  "dwg_items cfg [] to_include = Inr []"
| "dwg_items cfg (item # items) to_include =
     ebind (find_dwg_to_include (migration_df cfg) item)
       (\<lambda>found.
          let to_include_base = sorted_set found;
              to_include' =
                (if symmetric cfg then Some (sorted_set (map sorted_pair to_include_base))
                 else to_include)
          in case to_include' of
               None \<Rightarrow> Inl UnboundLocalError
             | Some ti \<Rightarrow>
                 ebind (dwg_items cfg items to_include')
                   (\<lambda>rest. Inr (dwg_combos (symmetric cfg) item
                                   (combos_of_migration (max_migration_events cfg) ti) @ rest)))"

definition create_dwg_demographies :: "config \<Rightarrow> demography list \<Rightarrow> error + demography list" where
  "create_dwg_demographies cfg divergence_demographies =
     dwg_items cfg divergence_demographies None"

section \<open>Random draws\<close>

text \<open>
  \<open>np.random.default_rng(seed)\<close> is a deterministic stream. A generator is modelled by the
  stream of the raw outputs it still has to give: a double in [0, 1) is 53 bits of the
  next output scaled by \<open>2 ^ 53\<close>, and \<open>uniform(low, high)\<close> is
  \<open>low + (high - low) * u\<close> for such a double u. \<open>Generator.uniform\<close> raises
  when \<open>high - low\<close> is negative. The arithmetic is exact here, where numpy rounds to
  the nearest double.
\<close>

type_synonym rng = "nat \<Rightarrow> int"

definition random_standard_uniform :: "rng \<Rightarrow> rat \<times> rng" where
  "random_standard_uniform g = (of_int (g 0 mod 2 ^ 53) / 2 ^ 53, \<lambda>i. g (Suc i))"

definition uniform :: "rat \<Rightarrow> rat \<Rightarrow> rng \<Rightarrow> error + (rat \<times> rng)" where
  "uniform low high g =
     (if high - low < 0 then Inl ValueError
      else Inr (low + (high - low) * fst (random_standard_uniform g),
                snd (random_standard_uniform g)))"

text \<open>\<open>uniform(low, high, size=n)\<close>: n draws, one after the other.\<close>

fun uniform_size :: "rat \<Rightarrow> rat \<Rightarrow> nat \<Rightarrow> rng \<Rightarrow> error + (rat list \<times> rng)" where
  "uniform_size low high 0 g = (if high - low < 0 then Inl ValueError else Inr ([], g))"
| "uniform_size low high (Suc n) g =
     ebind (uniform low high g)
       (\<lambda>(x, g'). ebind (uniform_size low high n g') (\<lambda>(xs, g''). Inr (x # xs, g'')))"

text \<open>\<open>np.round(x, decimals)\<close> rounds to the nearest multiple, a tie to the even one.\<close>

definition rint :: "rat \<Rightarrow> int" where
  "rint x =
     (let f = \<lfloor>x\<rfloor>; d = x - of_int f
      in if d < 1 / 2 then f else if 1 / 2 < d then f + 1 else if even f then f else f + 1)"

definition np_round :: "rat \<Rightarrow> nat \<Rightarrow> rat" where
  "np_round x decimals = of_int (rint (x * 10 ^ decimals)) / 10 ^ decimals"

section \<open>Dictionaries and lists\<close>

text \<open>
  A dict is the list of its items in insertion order: \<open>AList.update\<close> replaces the value
  of a key in place and appends a new key. A missing key and an index out of range raise.
\<close>

definition lookup :: "('k \<times> 'v) list \<Rightarrow> 'k \<Rightarrow> error + 'v" where
  "lookup d k = (case map_of d k of None \<Rightarrow> Inl KeyError | Some v \<Rightarrow> Inr v)"

definition at_index :: "'a list \<Rightarrow> nat \<Rightarrow> error + 'a" where
  "at_index xs i = (if i < length xs then Inr (xs ! i) else Inl IndexError)"

fun emap :: "('a \<Rightarrow> error + 'b) \<Rightarrow> 'a list \<Rightarrow> error + 'b list" where
  "emap f [] = Inr []"
| "emap f (x # xs) = ebind (f x) (\<lambda>y. ebind (emap f xs) (\<lambda>ys. Inr (y # ys)))"

text \<open>
  The prior maps of \<open>_get_priors\<close>: a name to its two bounds, both made with \<open>int\<close>.
  Draws: a name to one value for each replicate. \<open>population_size_keys\<close>: a name to the
  index of its population. The dicts of the migration draws are keyed by the text
  \<open>"%s_%s"\<close> of two such indices, which is kept as the pair of the indices.
\<close>

type_synonym priors = "(string \<times> (int \<times> int)) list"
type_synonym draws = "(string \<times> rat list) list"
type_synonym size_keys = "(string \<times> nat) list"

section \<open>Parameter Sampler\<close>

subsection \<open>\<open>ModelBuilder._draw_population_sizes\<close>\<close>

fun draw_population_sizes_loop ::
  "nat \<Rightarrow> nat \<Rightarrow> population list \<Rightarrow> priors \<Rightarrow> draws \<Rightarrow> size_keys \<Rightarrow> rng
     \<Rightarrow> error + (draws \<times> size_keys \<times> rng)" where
  "draw_population_sizes_loop n index [] population_sizes ds ks g = Inr (ds, ks, g)"
| "draw_population_sizes_loop n index (p # ps) population_sizes ds ks g =
     ebind (lookup population_sizes (name p))
       (\<lambda>(min_size, max_size).
          ebind (uniform_size (of_int min_size) (of_int max_size) n g)
            (\<lambda>(xs, g').
               draw_population_sizes_loop n (Suc index) ps population_sizes
                 (AList.update (name p) (map (\<lambda>x. np_round x 0) xs) ds)
                 (AList.update (name p) index ks) g'))"

definition draw_population_sizes ::
  "config \<Rightarrow> demography \<Rightarrow> priors \<Rightarrow> rng \<Rightarrow> error + (draws \<times> size_keys \<times> rng)" where
  "draw_population_sizes cfg model population_sizes g =
     draw_population_sizes_loop (replicates cfg) 0 (populations model) population_sizes [] [] g"

subsection \<open>\<open>ModelBuilder._draw_divergence_times\<close>\<close>

fun ancestral_names :: "event list \<Rightarrow> string list" where
  "ancestral_names [] = []"
| "ancestral_names (PopulationSplit t d a # es) = a # ancestral_names es"
| "ancestral_names (e # es) = ancestral_names es"

text \<open>
  \<open>list(set(all_populations) - set(ancestral))\<close>: the order of a set is not fixed by
  Python; the order of the populations is taken.
\<close>

definition non_ancestral :: "draws \<Rightarrow> event list \<Rightarrow> string list" where
  "non_ancestral population_size_draws es =
     filter (\<lambda>x. x \<notin> set (ancestral_names es)) (remdups (map fst population_size_draws))"

definition zero_draws :: "nat \<Rightarrow> string list \<Rightarrow> draws" where
  "zero_draws n xs = fold (\<lambda>x ds. AList.update x (replicate n 0) ds) xs []"

text \<open>
  \<open>[max(x) for x in zip(draws[derived[0]], draws[derived[1]], np.repeat(lower, n))]\<close>
\<close>

definition min_values :: "rat list \<Rightarrow> rat list \<Rightarrow> rat \<Rightarrow> nat \<Rightarrow> rat list" where
  "min_values t0 t1 lower n =
     map (\<lambda>(a, b, c). max a (max b c)) (zip t0 (zip t1 (replicate n lower)))"

text \<open>\<open>[np.round(self.rng.uniform(low=x, high=upper), 0) for x in min_values]\<close>\<close>

fun draw_from_lows :: "rat list \<Rightarrow> rat \<Rightarrow> rng \<Rightarrow> error + (rat list \<times> rng)" where
  "draw_from_lows [] upper g = Inr ([], g)"
| "draw_from_lows (x # xs) upper g =
     ebind (uniform x upper g)
       (\<lambda>(v, g'). ebind (draw_from_lows xs upper g') (\<lambda>(vs, g''). Inr (np_round v 0 # vs, g'')))"

fun draw_divergence_events ::
  "nat \<Rightarrow> event list \<Rightarrow> priors \<Rightarrow> draws \<Rightarrow> rng \<Rightarrow> error + (draws \<times> rng)" where
  "draw_divergence_events n [] divergence_times ds g = Inr (ds, g)"
| "draw_divergence_events n (PopulationSplit t derived a # es) divergence_times ds g =
     (if t \<noteq> Fin 0 then
        ebind (at_index derived 0) (\<lambda>d0.
        ebind (lookup ds d0) (\<lambda>t0.
        ebind (at_index derived 1) (\<lambda>d1.
        ebind (lookup ds d1) (\<lambda>t1.
        ebind (lookup divergence_times a) (\<lambda>(lower, upper).
        ebind (draw_from_lows (min_values t0 t1 (of_int lower) n) (of_int upper) g)
          (\<lambda>(vs, g').
             draw_divergence_events n es divergence_times (AList.update a vs ds) g'))))))
      else draw_divergence_events n es divergence_times (AList.update a (replicate n 0) ds) g)"
| "draw_divergence_events n (e # es) divergence_times ds g =
     draw_divergence_events n es divergence_times ds g"

definition draw_divergence_times ::
  "config \<Rightarrow> draws \<Rightarrow> demography \<Rightarrow> priors \<Rightarrow> rng \<Rightarrow> error + (draws \<times> rng)" where
  "draw_divergence_times cfg population_size_draws model divergence_times g =
     draw_divergence_events (replicates cfg) (events model) divergence_times
       (zero_draws (replicates cfg) (non_ancestral population_size_draws (events model))) g"

subsection \<open>\<open>ModelBuilder._draw_migration_rates\<close>\<close>

text \<open>
  The key of a migration event: the indices of \<open>event.populations[0]\<close> and
  \<open>event.populations[1]\<close> in symmetric mode, of \<open>event.source\<close> and \<open>event.dest\<close>
  otherwise. An event of the other kind lacks the attribute.
\<close>

fun migration_key :: "bool \<Rightarrow> size_keys \<Rightarrow> event \<Rightarrow> error + (nat \<times> nat)" where
  "migration_key symm ks (SymmetricMigrationRateChange t ps r) =
     (if symm then
        ebind (at_index ps 0) (\<lambda>p0. ebind (lookup ks p0) (\<lambda>k0.
        ebind (at_index ps 1) (\<lambda>p1. ebind (lookup ks p1) (\<lambda>k1. Inr (k0, k1)))))
      else Inl AttributeError)"
| "migration_key symm ks (MigrationRateChange t r s d) =
     (if symm then Inl AttributeError
      else ebind (lookup ks s) (\<lambda>k0. ebind (lookup ks d) (\<lambda>k1. Inr (k0, k1))))"
| "migration_key symm ks (PopulationSplit t d a) = Inl AttributeError"

type_synonym rate_draws = "((nat \<times> nat) \<times> rat list) list"

fun draw_migration_rates_loop ::
  "config \<Rightarrow> size_keys \<Rightarrow> event list \<Rightarrow> rate_draws \<Rightarrow> rng \<Rightarrow> error + (rate_draws \<times> rng)" where
  "draw_migration_rates_loop cfg ks [] rs g = Inr (rs, g)"
| "draw_migration_rates_loop cfg ks (e # es) rs g =
     (if has_rate e then
        ebind (uniform_size (fst (migration_rate cfg)) (snd (migration_rate cfg))
                 (replicates cfg) g)
          (\<lambda>(xs, g').
             ebind (migration_key (symmetric cfg) ks e)
               (\<lambda>key. draw_migration_rates_loop cfg ks es
                         (AList.update key (map (\<lambda>x. np_round x 10) xs) rs) g'))
      else draw_migration_rates_loop cfg ks es rs g)"

definition draw_migration_rates ::
  "config \<Rightarrow> size_keys \<Rightarrow> demography \<Rightarrow> rng \<Rightarrow> error + (rate_draws \<times> rng)" where
  "draw_migration_rates cfg ks model g = draw_migration_rates_loop cfg ks (events model) [] g"

subsection \<open>\<open>ModelBuilder._get_migration_stops\<close>\<close>

text \<open>
  The inner loop over the keys of the divergence draws, for one replicate:
  \<open>if draws[key][rep] > 0 and draws[key][rep] < min: min = draws[key][rep]\<close>, from
  \<open>min = np.inf\<close>.
\<close>

fun less_pyfloat :: "rat \<Rightarrow> pyfloat \<Rightarrow> bool" where
  "less_pyfloat x (Fin m) = (x < m)"
| "less_pyfloat x PosInf = True"

fun minimum_divergence :: "nat \<Rightarrow> draws \<Rightarrow> pyfloat \<Rightarrow> error + pyfloat" where
  "minimum_divergence rep [] m = Inr m"
| "minimum_divergence rep ((key, ts) # ds) m =
     ebind (at_index ts rep)
       (\<lambda>t. minimum_divergence rep ds (if 0 < t \<and> less_pyfloat t m then Fin t else m))"

text \<open>\<open>np.ceil(x / 2)\<close>\<close>

fun ceil_half :: "pyfloat \<Rightarrow> pyfloat" where
  "ceil_half (Fin x) = Fin (of_int \<lceil>x / 2\<rceil>)"
| "ceil_half PosInf = PosInf"

definition get_migration_stops :: "config \<Rightarrow> draws \<Rightarrow> error + pyfloat list" where
  "get_migration_stops cfg divergence_time_draws =
     ebind (emap (\<lambda>rep. minimum_divergence rep divergence_time_draws PosInf)
              [0 ..< replicates cfg])
       (\<lambda>ms. Inr (map ceil_half ms))"

subsection \<open>\<open>ModelBuilder._get_migration_starts\<close>\<close>

text \<open>
  The two daughters of a migration event: unpacking \<open>event.populations\<close> raises unless it
  has two names.
\<close>

fun daughters :: "bool \<Rightarrow> event \<Rightarrow> error + (string \<times> string)" where
  "daughters symm (SymmetricMigrationRateChange t ps r) =
     (if symm then (case ps of [d1, d2] \<Rightarrow> Inr (d1, d2) | _ \<Rightarrow> Inl ValueError)
      else Inl AttributeError)"
| "daughters symm (MigrationRateChange t r s d) =
     (if symm then Inl AttributeError else Inr (s, d))"
| "daughters symm (PopulationSplit t d a) = Inl AttributeError"

text \<open>
  The loop \<open>for divevent in model.events\<close>: the last split that has both daughters among
  its derived populations names the ancestor. \<open>ancestor\<close> is a local of the function: it
  is unbound until a split matches and keeps its value otherwise.
\<close>

fun find_ancestor :: "string \<Rightarrow> string \<Rightarrow> event list \<Rightarrow> string option \<Rightarrow> string option" where
  "find_ancestor d1 d2 [] anc = anc"
| "find_ancestor d1 d2 (PopulationSplit t derived a # es) anc =
     find_ancestor d1 d2 es (if d1 \<in> set derived \<and> d2 \<in> set derived then Some a else anc)"
| "find_ancestor d1 d2 (e # es) anc = find_ancestor d1 d2 es anc"

text \<open>
  \<open>startime = ((tdiv_ancestor - max(tdiv_daughter1, tdiv_daughter2)) / 2)
  + max(tdiv_daughter1, tdiv_daughter2)\<close>
\<close>

definition startime :: "rat \<Rightarrow> rat \<Rightarrow> rat \<Rightarrow> rat" where
  "startime tdiv_ancestor tdiv_daughter1 tdiv_daughter2 =
     ((tdiv_ancestor - max tdiv_daughter1 tdiv_daughter2) / 2)
     + max tdiv_daughter1 tdiv_daughter2"

type_synonym start_draws = "((nat \<times> nat) \<times> rat list) list"

text \<open>
  The body of the loop for one migration event and one replicate. The \<open>try\<close> appends to
  the list of the key; when the key is new the \<open>except\<close> starts the list.
\<close>

definition migration_start_event ::
  "bool \<Rightarrow> event list \<Rightarrow> draws \<Rightarrow> size_keys \<Rightarrow> nat \<Rightarrow> event
     \<Rightarrow> start_draws \<times> string option \<Rightarrow> error + (start_draws \<times> string option)" where
  "migration_start_event symm es dd ks rep e st =
     ebind (daughters symm e) (\<lambda>(daughter1, daughter2).
       let anc = find_ancestor daughter1 daughter2 es (snd st)
       in case anc of
            None \<Rightarrow> Inl UnboundLocalError
          | Some ancestor \<Rightarrow>
              ebind (lookup dd ancestor) (\<lambda>ta. ebind (at_index ta rep) (\<lambda>tdiv_ancestor.
              ebind (lookup dd daughter1) (\<lambda>t1. ebind (at_index t1 rep) (\<lambda>tdiv_daughter1.
              ebind (lookup dd daughter2) (\<lambda>t2. ebind (at_index t2 rep) (\<lambda>tdiv_daughter2.
              ebind (lookup ks daughter1) (\<lambda>k1. ebind (lookup ks daughter2) (\<lambda>k2.
                Inr (AList.update (k1, k2)
                       ((case map_of (fst st) (k1, k2) of None \<Rightarrow> [] | Some l \<Rightarrow> l)
                        @ [startime tdiv_ancestor tdiv_daughter1 tdiv_daughter2])
                       (fst st),
                     anc))))))))))"

fun migration_start_events ::
  "bool \<Rightarrow> event list \<Rightarrow> draws \<Rightarrow> size_keys \<Rightarrow> nat \<Rightarrow> event list
     \<Rightarrow> start_draws \<times> string option \<Rightarrow> error + (start_draws \<times> string option)" where
  "migration_start_events symm all dd ks rep [] st = Inr st"
| "migration_start_events symm all dd ks rep (e # es) st =
     (if has_rate e then
        ebind (migration_start_event symm all dd ks rep e st)
          (migration_start_events symm all dd ks rep es)
      else migration_start_events symm all dd ks rep es st)"

fun migration_start_reps ::
  "bool \<Rightarrow> event list \<Rightarrow> draws \<Rightarrow> size_keys \<Rightarrow> nat list
     \<Rightarrow> start_draws \<times> string option \<Rightarrow> error + (start_draws \<times> string option)" where
  "migration_start_reps symm all dd ks [] st = Inr st"
| "migration_start_reps symm all dd ks (rep # reps) st =
     ebind (migration_start_events symm all dd ks rep all st)
       (migration_start_reps symm all dd ks reps)"

definition get_migration_starts ::
  "config \<Rightarrow> demography \<Rightarrow> draws \<Rightarrow> size_keys \<Rightarrow> error + start_draws" where
  "get_migration_starts cfg model divergence_time_draws ks =
     ebind (migration_start_reps (symmetric cfg) (events model) divergence_time_draws ks
              [0 ..< replicates cfg] ([], None))
       (\<lambda>st. Inr (fst st))"

subsection \<open>Replicates\<close>

text \<open>
  \<open>copy.deepcopy(original_model)\<close> gives a demography of its own; values are not shared
  here, so the copy is the value. The loop over the populations sets
  \<open>population.initial_size = population_size_draws[population.name][rep]\<close>.
\<close>

definition set_initial_sizes :: "draws \<Rightarrow> nat \<Rightarrow> population list \<Rightarrow> error + population list" where
  "set_initial_sizes pd rep ps =
     emap (\<lambda>p. ebind (lookup pd (name p))
                  (\<lambda>xs. ebind (at_index xs rep) (\<lambda>x. Inr (p\<lparr>initial_size := x\<rparr>)))) ps"

subsection \<open>\<open>ModelBuilder._draw_parameters_divergence\<close>\<close>

text \<open>\<open>if hasattr(event, 'ancestral'): event.time = divergence_time_draws[event.ancestral][rep]\<close>\<close>

fun divergence_set_time :: "draws \<Rightarrow> nat \<Rightarrow> event \<Rightarrow> error + event" where
  "divergence_set_time dd rep (PopulationSplit t d a) =
     ebind (lookup dd a) (\<lambda>xs. ebind (at_index xs rep) (\<lambda>x. Inr (PopulationSplit (Fin x) d a)))"
| "divergence_set_time dd rep e = Inr e"

definition divergence_replicate ::
  "demography \<Rightarrow> draws \<Rightarrow> draws \<Rightarrow> nat \<Rightarrow> error + demography" where
  "divergence_replicate original_model pd dd rep =
     ebind (set_initial_sizes pd rep (populations original_model)) (\<lambda>ps.
     ebind (emap (divergence_set_time dd rep) (events original_model)) (\<lambda>es.
       Inr (original_model\<lparr>populations := ps, events := es\<rparr>)))"

fun draw_parameters_divergence ::
  "config \<Rightarrow> demography list \<Rightarrow> priors \<Rightarrow> priors \<Rightarrow> rng
     \<Rightarrow> error + (demography list list \<times> rng)" where
  "draw_parameters_divergence cfg [] divergence_times population_sizes g = Inr ([], g)"
| "draw_parameters_divergence cfg (original_model # models) divergence_times population_sizes g =
     ebind (draw_population_sizes cfg original_model population_sizes g) (\<lambda>(pd, ks, g1).
     ebind (draw_divergence_times cfg pd original_model divergence_times g1) (\<lambda>(dd, g2).
     ebind (emap (divergence_replicate original_model pd dd) [0 ..< replicates cfg]) (\<lambda>reps.
     ebind (draw_parameters_divergence cfg models divergence_times population_sizes g2)
       (\<lambda>(rest, g3). Inr (reps # rest, g3)))))"

subsection \<open>\<open>ModelBuilder._draw_parameters_sc\<close>\<close>

text \<open>
  A split takes its drawn divergence time; \<open>elif hasattr(event, 'rate'): event.time =
  migration_stop[rep]\<close>.
\<close>

fun sc_set_time :: "draws \<Rightarrow> pyfloat list \<Rightarrow> nat \<Rightarrow> event \<Rightarrow> error + event" where
  "sc_set_time dd migration_stop rep (PopulationSplit t d a) =
     ebind (lookup dd a) (\<lambda>xs. ebind (at_index xs rep) (\<lambda>x. Inr (PopulationSplit (Fin x) d a)))"
| "sc_set_time dd migration_stop rep (MigrationRateChange t r s d) =
     ebind (at_index migration_stop rep) (\<lambda>x. Inr (MigrationRateChange x r s d))"
| "sc_set_time dd migration_stop rep (SymmetricMigrationRateChange t ps r) =
     ebind (at_index migration_stop rep) (\<lambda>x. Inr (SymmetricMigrationRateChange x ps r))"

text \<open>
  The loop over the keys of the migration draws writes the matrix entry of the two
  indices of the key, and the mirrored entry in symmetric mode.
\<close>

fun set_matrix_rates ::
  "bool \<Rightarrow> nat \<Rightarrow> rate_draws \<Rightarrow> ((nat \<times> nat) \<times> rat) list
     \<Rightarrow> error + ((nat \<times> nat) \<times> rat) list" where
  "set_matrix_rates symm rep [] m = Inr m"
| "set_matrix_rates symm rep (((i, j), xs) # rs) m =
     ebind (at_index xs rep)
       (\<lambda>x. set_matrix_rates symm rep rs
               (if symm then AList.update (j, i) x (AList.update (i, j) x m)
                else AList.update (i, j) x m))"

definition sc_replicate ::
  "config \<Rightarrow> demography \<Rightarrow> draws \<Rightarrow> draws \<Rightarrow> rate_draws \<Rightarrow> pyfloat list \<Rightarrow> nat
     \<Rightarrow> error + demography" where
  "sc_replicate cfg original_model pd dd rd migration_stop rep =
     ebind (set_initial_sizes pd rep (populations original_model)) (\<lambda>ps.
     ebind (emap (sc_set_time dd migration_stop rep) (events original_model)) (\<lambda>es.
     ebind (set_matrix_rates (symmetric cfg) rep rd (migration_matrix original_model)) (\<lambda>m.
       Inr (original_model\<lparr>populations := ps, events := es, migration_matrix := m\<rparr>))))"

fun draw_parameters_sc ::
  "config \<Rightarrow> demography list \<Rightarrow> priors \<Rightarrow> priors \<Rightarrow> rng
     \<Rightarrow> error + (demography list list \<times> rng)" where
  "draw_parameters_sc cfg [] divergence_times population_sizes g = Inr ([], g)"
| "draw_parameters_sc cfg (original_model # models) divergence_times population_sizes g =
     ebind (draw_population_sizes cfg original_model population_sizes g) (\<lambda>(pd, ks, g1).
     ebind (draw_divergence_times cfg pd original_model divergence_times g1) (\<lambda>(dd, g2).
     ebind (draw_migration_rates cfg ks original_model g2) (\<lambda>(rd, g3).
     ebind (get_migration_stops cfg dd) (\<lambda>migration_stop.
     ebind (emap (sc_replicate cfg original_model pd dd rd migration_stop)
              [0 ..< replicates cfg]) (\<lambda>reps.
     ebind (draw_parameters_sc cfg models divergence_times population_sizes g3)
       (\<lambda>(rest, g4). Inr (reps # rest, g4)))))))"

subsection \<open>\<open>ModelBuilder._draw_parameters_dwg\<close>\<close>

text \<open>
  A migration event takes the start time and the rate drawn for its key:
  \<open>event.time = migration_start[key][rep]\<close>, \<open>event.rate = migration_rate_draws[key][rep]\<close>.
\<close>

fun with_time_rate :: "pyfloat \<Rightarrow> rat \<Rightarrow> event \<Rightarrow> event" where
  "with_time_rate x y (MigrationRateChange t r s d) = MigrationRateChange x y s d"
| "with_time_rate x y (SymmetricMigrationRateChange t ps r) = SymmetricMigrationRateChange x ps y"
| "with_time_rate x y (PopulationSplit t d a) = PopulationSplit t d a"

definition dwg_set_event ::
  "bool \<Rightarrow> size_keys \<Rightarrow> draws \<Rightarrow> start_draws \<Rightarrow> rate_draws \<Rightarrow> nat \<Rightarrow> event
     \<Rightarrow> error + event" where
  "dwg_set_event symm ks dd migration_start rd rep e =
     (case e of
        PopulationSplit t d a \<Rightarrow>
          ebind (lookup dd a)
            (\<lambda>xs. ebind (at_index xs rep) (\<lambda>x. Inr (PopulationSplit (Fin x) d a)))
      | _ \<Rightarrow>
          ebind (migration_key symm ks e) (\<lambda>key.
          ebind (lookup migration_start key) (\<lambda>ss. ebind (at_index ss rep) (\<lambda>x.
          ebind (lookup rd key) (\<lambda>rs. ebind (at_index rs rep) (\<lambda>y.
            Inr (with_time_rate (Fin x) y e)))))))"

definition dwg_replicate ::
  "config \<Rightarrow> demography \<Rightarrow> size_keys \<Rightarrow> draws \<Rightarrow> draws \<Rightarrow> rate_draws \<Rightarrow> start_draws \<Rightarrow> nat
     \<Rightarrow> error + demography" where
  "dwg_replicate cfg original_model ks pd dd rd migration_start rep =
     ebind (set_initial_sizes pd rep (populations original_model)) (\<lambda>ps.
     ebind (emap (dwg_set_event (symmetric cfg) ks dd migration_start rd rep)
              (events original_model)) (\<lambda>es.
       Inr (sort_events (original_model\<lparr>populations := ps, events := es\<rparr>))))"

fun draw_parameters_dwg ::
  "config \<Rightarrow> demography list \<Rightarrow> priors \<Rightarrow> priors \<Rightarrow> rng
     \<Rightarrow> error + (demography list list \<times> rng)" where
  "draw_parameters_dwg cfg [] divergence_times population_sizes g = Inr ([], g)"
| "draw_parameters_dwg cfg (original_model # models) divergence_times population_sizes g =
     ebind (draw_population_sizes cfg original_model population_sizes g) (\<lambda>(pd, ks, g1).
     ebind (draw_divergence_times cfg pd original_model divergence_times g1) (\<lambda>(dd, g2).
     ebind (draw_migration_rates cfg ks original_model g2) (\<lambda>(rd, g3).
     ebind (get_migration_starts cfg original_model dd ks) (\<lambda>migration_start.
     ebind (emap (dwg_replicate cfg original_model ks pd dd rd migration_start)
              [0 ..< replicates cfg]) (\<lambda>reps.
     ebind (draw_parameters_dwg cfg models divergence_times population_sizes g3)
       (\<lambda>(rest, g4). Inr (reps # rest, g4)))))))"

section \<open>Persisted schema\<close>

text \<open>
  The dict that \<open>yaml.dump\<close> writes and \<open>yaml.safe_load\<close> reads back. A bound of a
  migration is the literal 0 or the key of a relation. The keys \<open>migration\<close> and
  \<open>relations\<close> are present in the records of the migration categories only, and a
  migration entry has the key \<open>start_time\<close> or \<open>end_time\<close> only when it was set.
\<close>

datatype yaml_bound = Literal int | Key string

record yaml_population =
  pop_name :: string
  pop_size :: string

record yaml_divergence =
  div_derived :: "string list"
  div_ancestral :: string
  div_time :: string

record yaml_migration =
  mig_type :: string
  mig_source :: string
  mig_dest :: string
  mig_rate :: string
  mig_start_time :: "yaml_bound option"
  mig_end_time :: "yaml_bound option"

record yaml_dict =
  yaml_populations :: "yaml_population list"
  yaml_priors :: "(string \<times> (rat \<times> rat)) list"
  yaml_divergences :: "yaml_divergence list"
  yaml_migration :: "yaml_migration list option"
  yaml_relations :: "(string \<times> string) list option"

definition of_prior :: "int \<times> int \<Rightarrow> rat \<times> rat" where
  "of_prior p = (of_int (fst p), of_int (snd p))"

text \<open>\<open>sep.join(xs)\<close> and \<open>s.split(c)\<close> for a separator of one character.\<close>

fun join :: "string \<Rightarrow> string list \<Rightarrow> string" where
  "join sep [] = []"
| "join sep [x] = x"
| "join sep (x # y # xs) = x @ sep @ join sep (y # xs)"

fun split_on :: "char \<Rightarrow> string \<Rightarrow> string list" where
  "split_on c [] = [[]]"
| "split_on c (x # xs) =
     (if x = c then [] # split_on c xs
      else (case split_on c xs of [] \<Rightarrow> [[x]] | w # ws \<Rightarrow> (x # w) # ws))"

section \<open>Schema Writer\<close>

text \<open>
  The writer reads the first replicate of a model, \<open>model[1][0]\<close>, which raises when the
  model has no replicate.
\<close>

subsection \<open>\<open>ModelWriter._get_popinfo\<close>\<close>

fun get_popinfo_loop :: "population list \<Rightarrow> priors \<Rightarrow> yaml_dict \<Rightarrow> error + yaml_dict" where
  "get_popinfo_loop [] population_sizes y = Inr y"
| "get_popinfo_loop (p # ps) population_sizes y =
     ebind (lookup population_sizes (name p)) (\<lambda>prior.
       get_popinfo_loop ps population_sizes
         (y\<lparr>yaml_populations :=
              yaml_populations y @ [\<lparr>pop_name = name p, pop_size = ''Ne_'' @ name p\<rparr>],
            yaml_priors := AList.update (''Ne_'' @ name p) (of_prior prior) (yaml_priors y)\<rparr>))"

definition get_popinfo :: "demography list \<Rightarrow> yaml_dict \<Rightarrow> priors \<Rightarrow> error + yaml_dict" where
  "get_popinfo model y population_sizes =
     ebind (at_index model 0) (\<lambda>first.
       get_popinfo_loop (populations first) population_sizes
         (y\<lparr>yaml_populations := [], yaml_priors := []\<rparr>))"

subsection \<open>\<open>ModelWriter._get_divinfo\<close>\<close>

fun get_divinfo_loop :: "event list \<Rightarrow> priors \<Rightarrow> yaml_dict \<Rightarrow> error + yaml_dict" where
  "get_divinfo_loop [] divergence_times y = Inr y"
| "get_divinfo_loop (PopulationSplit t d a # es) divergence_times y =
     ebind (lookup divergence_times a) (\<lambda>prior.
       get_divinfo_loop es divergence_times
         (y\<lparr>yaml_divergences :=
              yaml_divergences y
              @ [\<lparr>div_derived = d, div_ancestral = a, div_time = ''Tdiv_'' @ a\<rparr>],
            yaml_priors := AList.update (''Tdiv_'' @ a) (of_prior prior) (yaml_priors y)\<rparr>))"
| "get_divinfo_loop (e # es) divergence_times y = get_divinfo_loop es divergence_times y"

definition get_divinfo :: "demography list \<Rightarrow> yaml_dict \<Rightarrow> priors \<Rightarrow> error + yaml_dict" where
  "get_divinfo model y divergence_times =
     ebind (at_index model 0) (\<lambda>first.
       get_divinfo_loop (events first) divergence_times (y\<lparr>yaml_divergences := []\<rparr>))"

subsection \<open>\<open>ModelWriter._get_scinfo\<close>\<close>

text \<open>
  The two populations of a migration event: \<open>event.populations[0]\<close> and
  \<open>event.populations[1]\<close> when it has the attribute \<open>populations\<close>, \<open>event.source\<close> and
  \<open>event.dest\<close> otherwise, with the type that goes with them.
\<close>

fun migration_populations :: "event \<Rightarrow> error + (string \<times> string \<times> string)" where
  "migration_populations (SymmetricMigrationRateChange t ps r) =
     ebind (at_index ps 0) (\<lambda>pop0. ebind (at_index ps 1) (\<lambda>pop1.
       Inr (''symmetric'', pop0, pop1)))"
| "migration_populations (MigrationRateChange t r s d) = Inr (''asymmetric'', s, d)"
| "migration_populations (PopulationSplit t d a) = Inl AttributeError"

text \<open>\<open>'min(' + ','.join(time_values) + ')/2'\<close> over the time keys of the divergences.\<close>

definition sc_relation :: "yaml_divergence list \<Rightarrow> string" where
  "sc_relation ds = ''min('' @ join '','' (map div_time ds) @ '')/2''"

definition the_list :: "'a list option \<Rightarrow> 'a list" where
  "the_list xs = (case xs of None \<Rightarrow> [] | Some l \<Rightarrow> l)"

fun get_scinfo_loop :: "config \<Rightarrow> event list \<Rightarrow> yaml_dict \<Rightarrow> error + yaml_dict" where
  "get_scinfo_loop cfg [] y = Inr y"
| "get_scinfo_loop cfg (e # es) y =
     (if has_rate e then
        ebind (migration_populations e) (\<lambda>(ty, pop0, pop1).
          get_scinfo_loop cfg es
            (y\<lparr>yaml_migration := Some (the_list (yaml_migration y) @
                 [\<lparr>mig_type = ty, mig_source = pop0, mig_dest = pop1,
                   mig_rate = ''Mig_'' @ pop0 @ ''_'' @ pop1,
                   mig_start_time = Some (Literal 0),
                   mig_end_time = Some (Key (''Tmigend_'' @ pop0 @ ''_'' @ pop1))\<rparr>]),
               yaml_priors :=
                 AList.update (''Mig_'' @ pop0 @ ''_'' @ pop1) (migration_rate cfg) (yaml_priors y),
               yaml_relations := Some (AList.update (''Tmigend_'' @ pop0 @ ''_'' @ pop1)
                 (sc_relation (yaml_divergences y)) (the_list (yaml_relations y)))\<rparr>))
      else get_scinfo_loop cfg es y)"

definition get_scinfo :: "config \<Rightarrow> demography list \<Rightarrow> yaml_dict \<Rightarrow> error + yaml_dict" where
  "get_scinfo cfg model y =
     ebind (at_index model 0) (\<lambda>first.
       get_scinfo_loop cfg (events first)
         (y\<lparr>yaml_migration := Some [], yaml_relations := Some []\<rparr>))"

subsection \<open>\<open>ModelWriter._get_dwginfo\<close>\<close>

text \<open>
  The inner loop over the events. \<open>pop0div\<close> and \<open>pop1div\<close> start at 0 and take the name
  of an ancestral population equal to \<open>pop0\<close> or \<open>pop1\<close>; a name is never equal to 0, so
  \<open>pop0div != 0\<close> says that the name was set, and the variable is an option here.
  \<open>ancestraldiv\<close> is a local of the function: unbound until a split has both populations
  among its derived ones, and kept otherwise.
\<close>

fun dwg_scan ::
  "string \<Rightarrow> string \<Rightarrow> event list \<Rightarrow> string option \<times> string option \<times> string option
     \<Rightarrow> string option \<times> string option \<times> string option" where
  "dwg_scan pop0 pop1 [] st = st"
| "dwg_scan pop0 pop1 (PopulationSplit t d a # es) (ancestraldiv, pop0div, pop1div) =
     dwg_scan pop0 pop1 es
       (if pop0 \<in> set d \<and> pop1 \<in> set d then Some a else ancestraldiv,
        if a = pop0 then Some a else pop0div,
        if a = pop1 then Some a else pop1div)"
| "dwg_scan pop0 pop1 (e # es) st = dwg_scan pop0 pop1 es st"

text \<open>The four renderings of the start time.\<close>

definition dwg_relation :: "string \<Rightarrow> string option \<Rightarrow> string option \<Rightarrow> string" where
  "dwg_relation ancestraldiv pop0div pop1div =
     (case (pop0div, pop1div) of
        (Some p0, Some p1) \<Rightarrow>
          ''(Tdiv_'' @ ancestraldiv @ '' - min(Tdiv_'' @ p0 @ '', Tdiv_'' @ p1
          @ ''))/2 + min(Tdiv_'' @ p0 @ '', Tdiv_'' @ p1 @ '')''
      | (Some p0, None) \<Rightarrow>
          ''(Tdiv_'' @ ancestraldiv @ '' - Tdiv_'' @ p0 @ '')/2 + Tdiv_'' @ p0
      | (None, Some p1) \<Rightarrow>
          ''(Tdiv_'' @ ancestraldiv @ '' - Tdiv_'' @ p1 @ '')/2 + Tdiv_'' @ p1
      | (None, None) \<Rightarrow> ''Tdiv_'' @ ancestraldiv @ ''/2'')"

fun get_dwginfo_loop ::
  "config \<Rightarrow> event list \<Rightarrow> event list \<Rightarrow> string option \<Rightarrow> yaml_dict \<Rightarrow> error + yaml_dict" where
  "get_dwginfo_loop cfg all [] ancestraldiv y = Inr y"
| "get_dwginfo_loop cfg all (e # es) ancestraldiv y =
     (if has_rate e then
        ebind (migration_populations e) (\<lambda>(ty, pop0, pop1).
          case dwg_scan pop0 pop1 all (ancestraldiv, None, None) of
            (None, pop0div, pop1div) \<Rightarrow> Inl UnboundLocalError
          | (Some anc, pop0div, pop1div) \<Rightarrow>
              get_dwginfo_loop cfg all es (Some anc)
                (y\<lparr>yaml_migration := Some (the_list (yaml_migration y) @
                     [\<lparr>mig_type = ty, mig_source = pop0, mig_dest = pop1,
                       mig_rate = ''Mig_'' @ pop0 @ ''_'' @ pop1,
                       mig_start_time = Some (Key (''Tmigstart_'' @ pop0 @ ''_'' @ pop1)),
                       mig_end_time = None\<rparr>]),
                   yaml_priors :=
                     AList.update (''Mig_'' @ pop0 @ ''_'' @ pop1) (migration_rate cfg)
                       (yaml_priors y),
                   yaml_relations := Some (AList.update (''Tmigstart_'' @ pop0 @ ''_'' @ pop1)
                     (dwg_relation anc pop0div pop1div) (the_list (yaml_relations y)))\<rparr>))
      else get_dwginfo_loop cfg all es ancestraldiv y)"

definition get_dwginfo :: "config \<Rightarrow> demography list \<Rightarrow> yaml_dict \<Rightarrow> error + yaml_dict" where
  "get_dwginfo cfg model y =
     ebind (at_index model 0) (\<lambda>first.
       get_dwginfo_loop cfg (events first) (events first) None
         (y\<lparr>yaml_migration := Some [], yaml_relations := Some []\<rparr>))"

subsection \<open>The dict of one model\<close>

text \<open>
  \<open>_divergence_to_yaml\<close>, \<open>_sc_to_yaml\<close> and \<open>_dwg_to_yaml\<close> fill the dict of a model
  with these functions before they dump it.
\<close>

definition empty_yaml :: yaml_dict where
  "empty_yaml =
     \<lparr>yaml_populations = [], yaml_priors = [], yaml_divergences = [],
      yaml_migration = None, yaml_relations = None\<rparr>"

definition divergence_to_yaml :: "priors \<Rightarrow> priors \<Rightarrow> demography list \<Rightarrow> error + yaml_dict" where
  "divergence_to_yaml population_sizes divergence_times model =
     ebind (get_popinfo model empty_yaml population_sizes) (\<lambda>y.
       get_divinfo model y divergence_times)"

definition sc_to_yaml ::
  "config \<Rightarrow> priors \<Rightarrow> priors \<Rightarrow> demography list \<Rightarrow> error + yaml_dict" where
  "sc_to_yaml cfg population_sizes divergence_times model =
     ebind (divergence_to_yaml population_sizes divergence_times model) (get_scinfo cfg model)"

definition dwg_to_yaml ::
  "config \<Rightarrow> priors \<Rightarrow> priors \<Rightarrow> demography list \<Rightarrow> error + yaml_dict" where
  "dwg_to_yaml cfg population_sizes divergence_times model =
     ebind (divergence_to_yaml population_sizes divergence_times model) (get_dwginfo cfg model)"

section \<open>Schema Reader\<close>

subsection \<open>\<open>ModelReader.read_yaml\<close>: population sizes\<close>

fun read_population_sizes ::
  "nat \<Rightarrow> yaml_population list \<Rightarrow> (string \<times> (rat \<times> rat)) list \<Rightarrow> draws \<Rightarrow> rng
     \<Rightarrow> error + (draws \<times> rng)" where
  "read_population_sizes n [] pri ds g = Inr (ds, g)"
| "read_population_sizes n (p # ps) pri ds g =
     ebind (lookup pri (pop_size p)) (\<lambda>sizeprior.
     ebind (uniform_size (fst sizeprior) (snd sizeprior) n g) (\<lambda>(xs, g').
       read_population_sizes n ps pri
         (AList.update (pop_name p) (map (\<lambda>x. np_round x 0) xs) ds) g'))"

subsection \<open>Dependencies between the divergence times\<close>

text \<open>
  For one divergence, the inner loop over all divergences: the dependency starts at
  \<open>None\<close> and becomes the ancestral name of every divergence that is among the derived
  names, so the last such divergence of the list stays.
\<close>

fun dependency_of :: "string list \<Rightarrow> yaml_divergence list \<Rightarrow> string option \<Rightarrow> string option" where
  "dependency_of derived [] dep = dep"
| "dependency_of derived (d2 # ds) dep =
     dependency_of derived ds (if div_ancestral d2 \<in> set derived then Some (div_ancestral d2) else dep)"

type_synonym dependencies = "(string \<times> string option) list"

definition find_dependencies :: "yaml_divergence list \<Rightarrow> dependencies" where
  "find_dependencies divergences =
     fold (\<lambda>d deps. AList.update (div_ancestral d)
                      (dependency_of (div_derived d) divergences None) deps)
       divergences []"

subsection \<open>The order of the divergence times\<close>

text \<open>
  One pass of the \<open>for\<close> loop inside the \<open>while\<close>: a divergence that was not added yet is
  appended when it has no dependency or when its dependency was added.
\<close>

fun order_pass ::
  "dependencies \<Rightarrow> yaml_divergence list \<Rightarrow> yaml_divergence list \<times> string list
     \<Rightarrow> error + (yaml_divergence list \<times> string list)" where
  "order_pass deps [] st = Inr st"
| "order_pass deps (d # ds) (ordered, added) =
     ebind (lookup deps (div_ancestral d)) (\<lambda>dep.
       order_pass deps ds
         (if dep = None \<and> div_ancestral d \<notin> set added
          then (ordered @ [d], added @ [div_ancestral d])
          else if dep \<in> Some ` set added \<and> div_ancestral d \<notin> set added
          then (ordered @ [d], added @ [div_ancestral d])
          else (ordered, added)))"

text \<open>
  \<open>while len(divergence_list_ordered) < len(yaml_info['divergences'])\<close>: the loop ends
  only when every divergence was appended, so a run that never ends has no value.
\<close>

partial_function (option) order_while ::
  "dependencies \<Rightarrow> yaml_divergence list \<Rightarrow> yaml_divergence list \<times> string list
     \<Rightarrow> (error + yaml_divergence list) option" where
  "order_while deps divergences st =
     (if length (fst st) < length divergences then
        (case order_pass deps divergences st of
           Inl e \<Rightarrow> Some (Inl e)
         | Inr st' \<Rightarrow> order_while deps divergences st')
      else Some (Inr (fst st)))"

declare order_while.simps [code]

definition divergence_list_ordered ::
  "yaml_divergence list \<Rightarrow> (error + yaml_divergence list) option" where
  "divergence_list_ordered divergences =
     order_while (find_dependencies divergences) divergences ([], [])"

subsection \<open>Divergence times\<close>

text \<open>
  The lower bounds of one divergence with a dependency: the maximum, replicate by
  replicate, of the prior's lower bound and the draws of those derived populations that
  have draws. \<open>min_values\<close> is a local of the function: when neither derived population
  has draws no branch assigns it, and it is unbound or keeps its last value.
\<close>

definition read_min_values ::
  "nat \<Rightarrow> draws \<Rightarrow> string \<Rightarrow> string \<Rightarrow> rat \<Rightarrow> rat list option \<Rightarrow> rat list option" where
  "read_min_values n dd d0 d1 lower mv =
     (case (map_of dd d0, map_of dd d1) of
        (Some t0, Some t1) \<Rightarrow> Some (min_values t0 t1 lower n)
      | (Some t0, None) \<Rightarrow> Some (map (\<lambda>(a, c). max a c) (zip t0 (replicate n lower)))
      | (None, Some t1) \<Rightarrow> Some (map (\<lambda>(a, c). max a c) (zip t1 (replicate n lower)))
      | (None, None) \<Rightarrow> mv)"

fun read_divergence_times ::
  "nat \<Rightarrow> dependencies \<Rightarrow> (string \<times> (rat \<times> rat)) list \<Rightarrow> yaml_divergence list
     \<Rightarrow> draws \<Rightarrow> rat list option \<Rightarrow> rng \<Rightarrow> error + (draws \<times> rng)" where
  "read_divergence_times n deps pri [] dd mv g = Inr (dd, g)"
| "read_divergence_times n deps pri (d # ds) dd mv g =
     ebind (lookup pri (''Tdiv_'' @ div_ancestral d)) (\<lambda>divprior.
     ebind (lookup deps (div_ancestral d)) (\<lambda>dep.
       if dep = None then
         ebind (uniform_size (fst divprior) (snd divprior) n g) (\<lambda>(xs, g').
           read_divergence_times n deps pri ds
             (AList.update (div_ancestral d) (map (\<lambda>x. np_round x 0) xs) dd) mv g')
       else
         ebind (at_index (div_derived d) 0) (\<lambda>d0.
         ebind (at_index (div_derived d) 1) (\<lambda>d1.
           case read_min_values n dd d0 d1 (fst divprior) mv of
             None \<Rightarrow> Inl UnboundLocalError
           | Some lows \<Rightarrow>
               ebind (draw_from_lows lows (snd divprior) g) (\<lambda>(vs, g').
                 read_divergence_times n deps pri ds
                   (AList.update (div_ancestral d) vs dd) (Some lows) g')))))"

subsection \<open>Migration rates and times\<close>

text \<open>
  \<open>endtime.split('(')[1].split(')')[0].split(',')\<close>: the names between the brackets
  of a relation. Without an opening bracket the index 1 is out of range.
\<close>

definition parse_mintimes :: "string \<Rightarrow> error + string list" where
  "parse_mintimes endtime =
     ebind (at_index (split_on CHR ''('' endtime) 1) (\<lambda>inside.
     ebind (at_index (split_on CHR '')'' inside) 0) (\<lambda>names.
       Inr (split_on CHR '','' names)))"

text \<open>
  The loop over the migration entries draws the rate of each entry and, for an entry with
  an end time, splits the names out of its relation into \<open>mintimes\<close>. Nothing else
  follows in the source: \<open>migration_times\<close> is created empty and never written, and
  the start time of an entry is not read.
\<close>

fun read_migrations ::
  "nat \<Rightarrow> yaml_dict \<Rightarrow> yaml_migration list \<Rightarrow> draws \<Rightarrow> string list option \<Rightarrow> rng
     \<Rightarrow> error + (draws \<times> string list option \<times> rng)" where
  "read_migrations n y [] rates mintimes g = Inr (rates, mintimes, g)"
| "read_migrations n y (m # ms) rates mintimes g =
     ebind (lookup (yaml_priors y) (mig_rate m)) (\<lambda>migprior.
     ebind (uniform_size (fst migprior) (snd migprior) n g) (\<lambda>(xs, g').
       let rates' = AList.update (mig_rate m) (map (\<lambda>x. np_round x 10) xs) rates
       in if mig_end_time m \<noteq> None then
            (case yaml_relations y of
               None \<Rightarrow> Inl KeyError
             | Some relations \<Rightarrow>
                 ebind (lookup relations (''Tmigend_'' @ mig_source m @ ''_'' @ mig_dest m))
                   (\<lambda>endtime. ebind (parse_mintimes endtime) (\<lambda>names.
                      read_migrations n y ms rates' (Some names) g')))
          else read_migrations n y ms rates' mintimes g'))"

subsection \<open>One schema, and all of them\<close>

text \<open>The locals of \<open>read_yaml\<close> when the body of its loop is through for one file.\<close>

record reader_locals =
  population_size_draws :: draws
  divergence_time_draws :: draws
  migration_rates :: draws
  migration_times :: draws
  mintimes :: "string list option"

definition read_after_order ::
  "nat \<Rightarrow> yaml_dict \<Rightarrow> draws \<Rightarrow> yaml_divergence list \<Rightarrow> rng
     \<Rightarrow> error + (reader_locals \<times> rng)" where
  "read_after_order n y pd ordered g =
     ebind (read_divergence_times n (find_dependencies (yaml_divergences y)) (yaml_priors y)
              ordered [] None g) (\<lambda>(dd, g').
     ebind (case yaml_migration y of
              None \<Rightarrow> Inr ([], None, g')
            | Some ms \<Rightarrow> read_migrations n y ms [] None g') (\<lambda>(rates, names, g'').
       Inr (\<lparr>population_size_draws = pd, divergence_time_draws = dd,
             migration_rates = rates, migration_times = [], mintimes = names\<rparr>, g'')))"

definition read_yaml_info ::
  "nat \<Rightarrow> yaml_dict \<Rightarrow> rng \<Rightarrow> (error + (reader_locals \<times> rng)) option" where
  "read_yaml_info n y g =
     (case read_population_sizes n (yaml_populations y) (yaml_priors y) [] g of
        Inl e \<Rightarrow> Some (Inl e)
      | Inr (pd, g') \<Rightarrow>
          (case divergence_list_ordered (yaml_divergences y) of
             None \<Rightarrow> None
           | Some (Inl e) \<Rightarrow> Some (Inl e)
           | Some (Inr ordered) \<Rightarrow> Some (read_after_order n y pd ordered g')))"

text \<open>
  \<open>read_yaml\<close> has no \<open>return\<close>: when the loop over the files is through, the
  caller gets Python's \<open>None\<close>, the unit value here, and the locals of every file are
  gone.
\<close>

fun read_yaml :: "nat \<Rightarrow> yaml_dict list \<Rightarrow> rng \<Rightarrow> (error + unit) option" where
  "read_yaml n [] g = Some (Inr ())"
| "read_yaml n (y # ys) g =
     (case read_yaml_info n y g of
        None \<Rightarrow> None
      | Some (Inl e) \<Rightarrow> Some (Inl e)
      | Some (Inr (locals, g')) \<Rightarrow> read_yaml n ys g')"

section \<open>\<open>ModelBuilder.build_models\<close>\<close>

text \<open>
  \<open>build_models\<close> enumerates the divergence demographies and, when the configuration asks
  for them, the secondary-contact and the gene-flow demographies, and stores the three
  lists in the builder: \<open>_draw_parameters_divergence\<close>, \<open>_draw_parameters_sc\<close> and
  \<open>_draw_parameters_dwg\<close> read them from there. A \<open>ValueError\<close> leaves the function as a
  \<open>ValueError\<close>, any other exception as an \<open>Exception\<close>.
\<close>

record builder =
  divergence_demographies :: "demography list"
  sc_demographies :: "demography list"
  dwg_demographies :: "demography list"

definition reraise :: "error + 'a \<Rightarrow> error + 'a" where
  "reraise m =
     (case m of
        Inl e \<Rightarrow> (if e = ValueError then Inl ValueError else Inl Exception)
      | Inr x \<Rightarrow> Inr x)"

definition build_models :: "config \<Rightarrow> error + builder" where
  "build_models cfg =
     reraise
       (ebind (create_divergence_demographies cfg)
          (\<lambda>divergence.
             ebind (if secondary_contact cfg then create_sc_demographies cfg divergence
                    else Inr [])
               (\<lambda>sc.
                  ebind (if divergence_with_gene_flow cfg
                         then create_dwg_demographies cfg divergence else Inr [])
                    (\<lambda>dwg. Inr \<lparr>divergence_demographies = divergence,
                                 sc_demographies = sc, dwg_demographies = dwg\<rparr>))))"

section \<open>\<open>ModelBuilder.draw_parameters\<close>\<close>

text \<open>
  \<open>draw_parameters\<close> draws the parameters of the divergence demographies, then of the
  secondary-contact demographies, then of the gene-flow demographies of the builder, with
  one generator, and returns the replicates of all models in this order. The priors are
  those that \<open>_get_priors\<close> reads from the annotations of the species tree.
\<close>

definition draw_parameters ::
  "config \<Rightarrow> builder \<Rightarrow> priors \<Rightarrow> priors \<Rightarrow> rng \<Rightarrow> error + (demography list list \<times> rng)" where
  "draw_parameters cfg b divergence_times population_sizes g =
     ebind (draw_parameters_divergence cfg (divergence_demographies b) divergence_times
              population_sizes g) (\<lambda>(parameterized_divergence, g1).
     ebind (draw_parameters_sc cfg (sc_demographies b) divergence_times population_sizes g1)
       (\<lambda>(parameterized_sc, g2).
     ebind (draw_parameters_dwg cfg (dwg_demographies b) divergence_times population_sizes g2)
       (\<lambda>(parameterized_dwg, g3).
       Inr (parameterized_divergence @ parameterized_sc @ parameterized_dwg, g3))))"

section \<open>Example inputs\<close>

text \<open>A migration matrix over the populations A and B that allows migration both ways.\<close>

definition df_AB :: migration_df where
  "df_AB = [(''A'', [(''A'', ''F''), (''B'', ''T'')]), (''B'', [(''A'', ''T''), (''B'', ''F'')])]"

text \<open>The placeholder demography of the two sister populations A and B with ancestor X.\<close>

definition item_AB :: demography where
  "item_AB =
     \<lparr>populations =
        [\<lparr>name = ''A'', initial_size = 1000\<rparr>, \<lparr>name = ''B'', initial_size = 1000\<rparr>,
         \<lparr>name = ''X'', initial_size = 1000\<rparr>],
      events = [PopulationSplit (Fin 1000) [''A'', ''B''] ''X''],
      migration_matrix = []\<rparr>"

text \<open>Leaves carry their name on the taxon, internal nodes on the label.\<close>

definition leaf :: "string \<Rightarrow> node" where
  "leaf n = Node None (Some n) []"

definition inner :: "string \<Rightarrow> node \<Rightarrow> node \<Rightarrow> node" where
  "inner n l r = Node (Some n) None [l, r]"

text \<open>The tree ((A,B)X,C)root of three leaves.\<close>

definition node_X :: node where
  "node_X = inner ''X'' (leaf ''A'') (leaf ''B'')"

definition tree3 :: node where
  "tree3 = inner ''root'' node_X (leaf ''C'')"

text \<open>The balanced tree ((A,B)X,(C,D)Y)root of four leaves.\<close>

definition node_Y :: node where
  "node_Y = inner ''Y'' (leaf ''C'') (leaf ''D'')"

definition tree4 :: node where
  "tree4 = inner ''root'' node_X node_Y"

text \<open>
  A configuration for a tree: migration allowed between A and B in both directions,
  at most one migration event, two replicates.
\<close>

definition config_of :: "node \<Rightarrow> bool \<Rightarrow> config" where
  "config_of t symm =
     \<lparr>species_tree = t, migration_df = df_AB, symmetric = symm, max_migration_events = 1,
      replicates = 2, migration_rate = (0, 1 / 10), secondary_contact = True,
      divergence_with_gene_flow = True\<rparr>"

text \<open>Priors for the balanced tree: X diverges between 400 and 600, Y between 100 and 200.\<close>

definition sizes4 :: priors where
  "sizes4 = [(''A'', (1000, 2000)), (''B'', (1000, 2000)), (''C'', (1000, 2000)),
             (''D'', (1000, 2000)), (''X'', (1000, 2000)), (''Y'', (1000, 2000)),
             (''root'', (1000, 2000))]"

definition times4 :: priors where
  "times4 = [(''X'', (400, 600)), (''Y'', (100, 200)), (''root'', (1000, 2000))]"

text \<open>A generator whose raw outputs are all 0: every draw is the lower bound.\<close>

definition rng0 :: rng where
  "rng0 = (\<lambda>i. 0)"

text \<open>
  Demographies with the splits of the balanced tree, written out in full: the fully
  resolved topology, the secondary-contact topology and the gene-flow topology with
  symmetric migration between A and B on it.
\<close>

definition topology4 :: demography where
  "topology4 =
     \<lparr>populations =
        [\<lparr>name = ''A'', initial_size = 1000\<rparr>, \<lparr>name = ''B'', initial_size = 1000\<rparr>,
         \<lparr>name = ''C'', initial_size = 1000\<rparr>, \<lparr>name = ''D'', initial_size = 1000\<rparr>,
         \<lparr>name = ''X'', initial_size = 1000\<rparr>, \<lparr>name = ''Y'', initial_size = 1000\<rparr>,
         \<lparr>name = ''root'', initial_size = 1000\<rparr>],
      events =
        [PopulationSplit (Fin 1000) [''A'', ''B''] ''X'',
         PopulationSplit (Fin 1000) [''C'', ''D''] ''Y'',
         PopulationSplit (Fin 1000) [''X'', ''Y''] ''root''],
      migration_matrix = []\<rparr>"

definition sc_topology4 :: demography where
  "sc_topology4 =
     topology4
       \<lparr>events := SymmetricMigrationRateChange (Fin 100) [''A'', ''B''] 0 # events topology4,
        migration_matrix := [((0, 1), 1 / 1000), ((1, 0), 1 / 1000)]\<rparr>"

definition dwg_topology4 :: demography where
  "dwg_topology4 =
     topology4
       \<lparr>events :=
          SymmetricMigrationRateChange (Fin 100) [''A'', ''B''] (1 / 1000) # events topology4\<rparr>"

text \<open>
  The schema records the writer gives for the secondary-contact and the gene-flow
  topology with migration between A and B.
\<close>

definition populations_schema4 :: "yaml_population list" where
  "populations_schema4 =
     [\<lparr>pop_name = ''A'', pop_size = ''Ne_A''\<rparr>, \<lparr>pop_name = ''B'', pop_size = ''Ne_B''\<rparr>,
      \<lparr>pop_name = ''C'', pop_size = ''Ne_C''\<rparr>, \<lparr>pop_name = ''D'', pop_size = ''Ne_D''\<rparr>,
      \<lparr>pop_name = ''X'', pop_size = ''Ne_X''\<rparr>, \<lparr>pop_name = ''Y'', pop_size = ''Ne_Y''\<rparr>,
      \<lparr>pop_name = ''root'', pop_size = ''Ne_root''\<rparr>]"

definition size_priors_schema4 :: "(string \<times> (rat \<times> rat)) list" where
  "size_priors_schema4 =
     [(''Ne_A'', 1000, 2000), (''Ne_B'', 1000, 2000), (''Ne_C'', 1000, 2000),
      (''Ne_D'', 1000, 2000), (''Ne_X'', 1000, 2000), (''Ne_Y'', 1000, 2000),
      (''Ne_root'', 1000, 2000)]"

definition div_X :: yaml_divergence where
  "div_X = \<lparr>div_derived = [''A'', ''B''], div_ancestral = ''X'', div_time = ''Tdiv_X''\<rparr>"

definition div_Y :: yaml_divergence where
  "div_Y = \<lparr>div_derived = [''C'', ''D''], div_ancestral = ''Y'', div_time = ''Tdiv_Y''\<rparr>"

definition div_root :: yaml_divergence where
  "div_root = \<lparr>div_derived = [''X'', ''Y''], div_ancestral = ''root'', div_time = ''Tdiv_root''\<rparr>"

definition sc_schema4 :: yaml_dict where
  "sc_schema4 =
     \<lparr>yaml_populations = populations_schema4,
      yaml_priors = size_priors_schema4 @
        [(''Tdiv_X'', 400, 600), (''Tdiv_Y'', 100, 200), (''Tdiv_root'', 1000, 2000),
         (''Mig_A_B'', 0, 1 / 10)],
      yaml_divergences = [div_X, div_Y, div_root],
      yaml_migration = Some
        [\<lparr>mig_type = ''symmetric'', mig_source = ''A'', mig_dest = ''B'', mig_rate = ''Mig_A_B'',
          mig_start_time = Some (Literal 0), mig_end_time = Some (Key ''Tmigend_A_B'')\<rparr>],
      yaml_relations = Some [(''Tmigend_A_B'', ''min(Tdiv_X,Tdiv_Y,Tdiv_root)/2'')]\<rparr>"

definition dwg_schema4 :: yaml_dict where
  "dwg_schema4 =
     \<lparr>yaml_populations = populations_schema4,
      yaml_priors = size_priors_schema4 @
        [(''Tdiv_Y'', 100, 200), (''Tdiv_X'', 400, 600), (''Tdiv_root'', 1000, 2000),
         (''Mig_A_B'', 0, 1 / 10)],
      yaml_divergences = [div_Y, div_X, div_root],
      yaml_migration = Some
        [\<lparr>mig_type = ''symmetric'', mig_source = ''A'', mig_dest = ''B'', mig_rate = ''Mig_A_B'',
          mig_start_time = Some (Key ''Tmigstart_A_B''), mig_end_time = None\<rparr>],
      yaml_relations = Some [(''Tmigstart_A_B'', ''Tdiv_X/2'')]\<rparr>"

text \<open>The draws of the population sizes and of the divergence times on the balanced tree.\<close>

definition size_draws4 :: draws where
  "size_draws4 =
     [(''A'', [1000, 1000]), (''B'', [1000, 1000]), (''C'', [1000, 1000]), (''D'', [1000, 1000]),
      (''X'', [1000, 1000]), (''Y'', [1000, 1000]), (''root'', [1000, 1000])]"

definition time_draws4 :: draws where
  "time_draws4 =
     [(''A'', [0, 0]), (''B'', [0, 0]), (''C'', [0, 0]), (''D'', [0, 0]),
      (''X'', [400, 400]), (''Y'', [100, 100]), (''root'', [1000, 1000])]"

text \<open>
  The replicate of the secondary-contact topology when every draw is its lower bound:
  migration stops at 50, half of the divergence time 100 of Y.
\<close>

definition sc_replicate4 :: demography where
  "sc_replicate4 =
     sc_topology4
       \<lparr>events :=
          [SymmetricMigrationRateChange (Fin 50) [''A'', ''B''] 0,
           PopulationSplit (Fin 400) [''A'', ''B''] ''X'',
           PopulationSplit (Fin 100) [''C'', ''D''] ''Y'',
           PopulationSplit (Fin 1000) [''X'', ''Y''] ''root''],
        migration_matrix := [((0, 1), 0), ((1, 0), 0)]\<rparr>"

text \<open>
  The tree ((A,B)X,C)root: its fully resolved topology and the secondary-contact topology
  with symmetric migration between A and B, as \<open>build_models\<close> enumerates them.
\<close>

definition topology3 :: demography where
  "topology3 =
     \<lparr>populations =
        [\<lparr>name = ''A'', initial_size = 1000\<rparr>, \<lparr>name = ''B'', initial_size = 1000\<rparr>,
         \<lparr>name = ''X'', initial_size = 1000\<rparr>, \<lparr>name = ''C'', initial_size = 1000\<rparr>,
         \<lparr>name = ''root'', initial_size = 1000\<rparr>],
      events =
        [PopulationSplit (Fin 1000) [''A'', ''B''] ''X'',
         PopulationSplit (Fin 1000) [''X'', ''C''] ''root''],
      migration_matrix = []\<rparr>"

definition sc_topology3 :: demography where
  "sc_topology3 =
     topology3
       \<lparr>events := SymmetricMigrationRateChange (Fin 100) [''A'', ''B''] 0 # events topology3,
        migration_matrix := [((0, 1), 1 / 1000), ((1, 0), 1 / 1000)]\<rparr>"

definition sizes3 :: priors where
  "sizes3 = [(''A'', (1000, 2000)), (''B'', (1000, 2000)), (''C'', (1000, 2000)),
             (''X'', (1000, 2000)), (''root'', (1000, 2000))]"

text \<open>Priors in which X diverges between 0 and 10 and the root between 20 and 30.\<close>

definition times3_low :: priors where
  "times3_low = [(''X'', (0, 10)), (''root'', (20, 30))]"

text \<open>
  The same tree with symmetric migration allowed between C and the internal population X.
  \<open>build_models\<close> stores two gene-flow topologies for it: one on the topology in which X
  is collapsed, where C and X are two leaves below the root, and one on the fully
  resolved topology, where X is the ancestor of A and B.
\<close>

definition df_CX :: migration_df where
  "df_CX = [(''C'', [(''C'', ''F''), (''X'', ''T'')]), (''X'', [(''C'', ''T''), (''X'', ''F'')])]"

definition config_CX :: config where
  "config_CX = (config_of tree3 True)\<lparr>migration_df := df_CX\<rparr>"

definition collapsed3 :: demography where
  "collapsed3 =
     \<lparr>populations =
        [\<lparr>name = ''X'', initial_size = 1000\<rparr>, \<lparr>name = ''C'', initial_size = 1000\<rparr>,
         \<lparr>name = ''root'', initial_size = 1000\<rparr>],
      events = [PopulationSplit (Fin 1000) [''X'', ''C''] ''root''],
      migration_matrix = []\<rparr>"

definition dwg_collapsed3 :: demography where
  "dwg_collapsed3 =
     collapsed3
       \<lparr>events :=
          SymmetricMigrationRateChange (Fin 100) [''C'', ''X''] (1 / 1000) # events collapsed3\<rparr>"

definition dwg_topology3 :: demography where
  "dwg_topology3 =
     topology3
       \<lparr>events :=
          SymmetricMigrationRateChange (Fin 100) [''C'', ''X''] (1 / 1000) # events topology3\<rparr>"

text \<open>Priors in which X diverges between 400 and 600 and the root between 1000 and 2000.\<close>

definition times3 :: priors where
  "times3 = [(''X'', (400, 600)), (''root'', (1000, 2000))]"

text \<open>
  The replicates of the two gene-flow topologies when every draw is its lower bound. On
  the collapsed topology the root diverges at 1000 and both daughters are leaves:
  migration starts at 500. On the fully resolved topology X diverges at 400 and the root
  at 1000: migration between C and X starts at 700.
\<close>

definition dwg_replicate3_collapsed :: demography where
  "dwg_replicate3_collapsed =
     collapsed3
       \<lparr>events :=
          [SymmetricMigrationRateChange (Fin 500) [''C'', ''X''] 0,
           PopulationSplit (Fin 1000) [''X'', ''C''] ''root'']\<rparr>"

definition dwg_replicate3 :: demography where
  "dwg_replicate3 =
     topology3
       \<lparr>events :=
          [PopulationSplit (Fin 400) [''A'', ''B''] ''X'',
           SymmetricMigrationRateChange (Fin 700) [''C'', ''X''] 0,
           PopulationSplit (Fin 1000) [''X'', ''C''] ''root'']\<rparr>"










definition sc_replicate3 :: demography where
  "sc_replicate3 =
     sc_topology3
       \<lparr>events :=
          [SymmetricMigrationRateChange (Fin 200) [''A'', ''B''] 0,
           PopulationSplit (Fin 400) [''A'', ''B''] ''X'',
           PopulationSplit (Fin 1000) [''X'', ''C''] ''root''],
        migration_matrix := [((0, 1), 0), ((1, 0), 0)]\<rparr>"


text \<open>
  What \<open>build_models\<close> stores for the tree ((A,B)X,C)root with symmetric migration between
  A and B: the topology in which X is collapsed, the one in which the root and X are
  collapsed, the fully resolved one, and the secondary-contact and the gene-flow topology
  on the fully resolved one.
\<close>

definition builder3 :: builder where
  "builder3 =
     \<lparr>divergence_demographies =
        [collapsed3,
         \<lparr>populations = [\<lparr>name = ''root'', initial_size = 1000\<rparr>], events = [],
          migration_matrix = []\<rparr>,
         topology3],
      sc_demographies = [sc_topology3],
      dwg_demographies =
        [topology3
           \<lparr>events :=
              SymmetricMigrationRateChange (Fin 100) [''A'', ''B''] (1 / 1000)
              # events topology3\<rparr>]\<rparr>"
text \<open>The cells of the matrix that hold the string T off the diagonal.\<close>

definition marked_T :: "migration_df \<Rightarrow> (string \<times> string) set" where
  "marked_T df = {(p, q). p \<noteq> q \<and> (\<exists>row. (p, row) \<in> set df \<and> (q, ''T'') \<in> set row)}"

text \<open>
  The contiguity invariant the specification intends: every internal node below a chosen
  node is chosen too.
\<close>

definition contiguity_valid :: "node list \<Rightarrow> bool" where
  "contiguity_valid combo =
     list_all (\<lambda>n. list_all (\<lambda>child. child \<in> set combo) (postorder_internal_node_iter n)) combo"

text \<open>The event times of a demography, and the chronological order of its events.\<close>

definition event_times :: "demography \<Rightarrow> pyfloat list" where
  "event_times model = map event_time (events model)"

definition chronological :: "demography \<Rightarrow> bool" where
  "chronological model = sorted (map time_key (event_times model))"

text \<open>What a run returns, without the generator it leaves.\<close>

definition result :: "error + ('a \<times> rng) \<Rightarrow> error + 'a" where
  "result r = map_sum id fst r"

text \<open>
  The invariant of the divergence draws: every population has one value for each of the
  n replicates, and the values are whole numbers that are not negative.
\<close>

definition int_draws :: "nat \<Rightarrow> draws \<Rightarrow> bool" where
  "int_draws n ds = (\<forall>k ts. map_of ds k = Some ts \<longrightarrow> length ts = n \<and> set ts \<subseteq> \<int> \<and> (\<forall>x \<in> set ts. 0 \<le> x))"

text \<open>
  The non-zero divergence times of a replicate, and the time at which migration should
  stop in a secondary-contact replicate: the ceiling of half the smallest of them
  (\<open>np.inf\<close> when there is none).
\<close>

definition nonzero_split_times :: "demography \<Rightarrow> rat set" where
  "nonzero_split_times r = {x. \<exists>d a. PopulationSplit (Fin x) d a \<in> set (events r) \<and> x \<noteq> 0}"

definition half_min_stop :: "demography \<Rightarrow> pyfloat" where
  "half_min_stop r =
     (if nonzero_split_times r = {} then PosInf
      else Fin (of_int \<lceil>Min (nonzero_split_times r) / 2\<rceil>))"

text \<open>The positive draws of one replicate, over all keys of the divergence draws.\<close>

definition positive_draws :: "nat \<Rightarrow> draws \<Rightarrow> rat set" where
  "positive_draws rep ds = {ts ! rep |k ts. (k, ts) \<in> set ds \<and> 0 < ts ! rep}"

text \<open>
  The two populations of a migration event, and the models of the gene-flow category:
  no two migration events are between the same two populations in the same order, and the
  two populations of every migration event are among the derived populations of a split.
\<close>

fun pair_of :: "event \<Rightarrow> string list" where
  "pair_of (MigrationRateChange t r s d) = [s, d]"
| "pair_of (SymmetricMigrationRateChange t ps r) = ps"
| "pair_of (PopulationSplit t d a) = []"

fun is_split_of :: "string list \<Rightarrow> event \<Rightarrow> bool" where
  "is_split_of ps (PopulationSplit t d a) = (set ps \<subseteq> set d)"
| "is_split_of ps e = False"

definition gene_flow_model :: "demography \<Rightarrow> bool" where
  "gene_flow_model m =
     (distinct (map pair_of (filter has_rate (events m)))
      \<and> (\<forall>e \<in> set (events m). has_rate e \<longrightarrow> list_ex (is_split_of (pair_of e)) (events m)))"

text \<open>
  The divergence time of a population in a replicate: the time of a split into it, and 0
  for a population that no split has as its ancestral population.
\<close>

definition has_divergence_time :: "demography \<Rightarrow> string \<Rightarrow> rat \<Rightarrow> bool" where
  "has_divergence_time r x t =
     ((\<exists>d. PopulationSplit (Fin t) d x \<in> set (events r))
      \<or> (x \<notin> set (ancestral_names (events r)) \<and> t = 0))"

text \<open>
  The draw of a population for a replicate, and the start time that the draws give a
  migration event: the formula at the draws of the ancestor and of the two daughters.
\<close>

definition draw_at :: "draws \<Rightarrow> string \<Rightarrow> nat \<Rightarrow> rat" where
  "draw_at dd x rep = (case map_of dd x of Some ts \<Rightarrow> ts ! rep | None \<Rightarrow> 0)"

definition start_value :: "event list \<Rightarrow> draws \<Rightarrow> nat \<Rightarrow> event \<Rightarrow> rat" where
  "start_value es dd rep e =
     (case pair_of e of
        [d1, d2] \<Rightarrow>
          (case find_ancestor d1 d2 es None of
             Some a \<Rightarrow> startime (draw_at dd a rep) (draw_at dd d1 rep) (draw_at dd d2 rep)
           | None \<Rightarrow> 0)
      | _ \<Rightarrow> 0)"

text \<open>
  The key under which the draws of a migration event are kept, and the property of
  \<open>population_size_keys\<close> that two names never share an index.
\<close>

definition event_key :: "size_keys \<Rightarrow> event \<Rightarrow> (nat \<times> nat) option" where
  "event_key ks e =
     (case pair_of e of
        [d1, d2] \<Rightarrow>
          (case (map_of ks d1, map_of ks d2) of
             (Some k1, Some k2) \<Rightarrow> Some (k1, k2)
           | _ \<Rightarrow> None)
      | _ \<Rightarrow> None)"

definition inj_keys :: "size_keys \<Rightarrow> bool" where
  "inj_keys ks = (\<forall>n1 n2 i. map_of ks n1 = Some i \<longrightarrow> map_of ks n2 = Some i \<longrightarrow> n1 = n2)"

text \<open>
  The order in which the sampler draws the divergence times: \<open>_draw_divergence_times\<close>
  goes through \<open>model.events\<close> and draws for every split as it comes. The order the reader
  reconstructs from a record.
\<close>

definition sampler_order :: "demography \<Rightarrow> string list" where
  "sampler_order model = ancestral_names (events model)"

definition reader_order :: "yaml_dict \<Rightarrow> (error + string list) option" where
  "reader_order y =
     map_option (map_sum id (map div_ancestral)) (divergence_list_ordered (yaml_divergences y))"

text \<open>
  Events in dependency order: the ancestral names are pairwise different, and a derived
  population of a split is not the ancestral population of that split or of a later one.
\<close>

fun dependency_ordered :: "event list \<Rightarrow> bool" where
  "dependency_ordered [] = True"
| "dependency_ordered (PopulationSplit t d a # es) =
     (a \<notin> set (ancestral_names es)
      \<and> list_all (\<lambda>x. x \<noteq> a \<and> x \<notin> set (ancestral_names es)) d
      \<and> dependency_ordered es)"
| "dependency_ordered (e # es) = dependency_ordered es"

text \<open>The same for the divergences of a record, and the divergences of a list of events.\<close>

fun divs_ordered :: "yaml_divergence list \<Rightarrow> bool" where
  "divs_ordered [] = True"
| "divs_ordered (d # ds) =
     (div_ancestral d \<notin> set (map div_ancestral ds)
      \<and> list_all (\<lambda>x. x \<noteq> div_ancestral d \<and> x \<notin> set (map div_ancestral ds)) (div_derived d)
      \<and> divs_ordered ds)"

fun split_records :: "event list \<Rightarrow> yaml_divergence list" where
  "split_records [] = []"
| "split_records (PopulationSplit t d a # es) =
     \<lparr>div_derived = d, div_ancestral = a, div_time = ''Tdiv_'' @ a\<rparr> # split_records es"
| "split_records (e # es) = split_records es"










section \<open>Basic facts\<close>

lemma ebind_Inr_iff: "ebind m f = Inr y \<longleftrightarrow> (\<exists>x. m = Inr x \<and> f x = Inr y)"
  by (cases m) (simp_all add: ebind_def)

lemma ebind_simps: "ebind (Inl e) f = Inl e" "ebind (Inr x) f = f x"
  by (simp_all add: ebind_def)

lemma lookup_Inr_iff: "lookup d k = Inr v \<longleftrightarrow> map_of d k = Some v"
  by (simp add: lookup_def split: option.splits)

lemma at_index_Inr_iff: "at_index xs i = Inr x \<longleftrightarrow> i < length xs \<and> xs ! i = x"
  by (auto simp: at_index_def)

lemma emap_length: "emap f xs = Inr ys \<Longrightarrow> length ys = length xs"
  by (induction xs arbitrary: ys) (auto simp: ebind_Inr_iff)

lemma emap_nth: "emap f xs = Inr ys \<Longrightarrow> i < length xs \<Longrightarrow> f (xs ! i) = Inr (ys ! i)"
proof (induction xs arbitrary: ys i)
  case Nil
  then show ?case by simp
next
  case (Cons x xs)
  then show ?case by (cases i) (auto simp: ebind_Inr_iff)
qed

lemma emap_set: "emap f xs = Inr ys \<Longrightarrow> y \<in> set ys \<Longrightarrow> \<exists>x \<in> set xs. f x = Inr y"
  by (induction xs arbitrary: ys) (auto simp: ebind_Inr_iff)

lemma emap_image: "emap f xs = Inr ys \<Longrightarrow> x \<in> set xs \<Longrightarrow> \<exists>y \<in> set ys. f x = Inr y"
  by (induction xs arbitrary: ys) (auto simp: ebind_Inr_iff)

lemma random_standard_uniform_range:
  "0 \<le> fst (random_standard_uniform g)" "fst (random_standard_uniform g) < 1"
  by (simp_all add: random_standard_uniform_def)

lemma uniform_range:
  assumes "uniform low high g = Inr (x, g')"
  shows "low \<le> x" "x \<le> high"
proof -
  let ?u = "fst (random_standard_uniform g)"
  from assms have le: "low \<le> high" and x: "x = low + (high - low) * ?u"
    by (auto simp: uniform_def split: if_splits)
  have u: "0 \<le> ?u" "?u \<le> 1"
    using random_standard_uniform_range [of g] by simp_all
  from le u(1) have "0 \<le> (high - low) * ?u" by simp
  with x show "low \<le> x" by simp
  from le u(2) have "(high - low) * ?u \<le> (high - low) * 1"
    by (intro mult_left_mono) simp_all
  with x show "x \<le> high" by simp
qed

lemma rint_range:
  assumes "of_int lo \<le> x" "x \<le> of_int hi"
  shows "lo \<le> rint x" "rint x \<le> hi"
proof -
  from assms(1) have fl: "lo \<le> \<lfloor>x\<rfloor>" by (simp add: le_floor_iff)
  have ge: "\<lfloor>x\<rfloor> \<le> rint x" by (simp add: rint_def Let_def)
  from fl ge show "lo \<le> rint x" by simp
  show "rint x \<le> hi"
  proof (cases "x = of_int \<lfloor>x\<rfloor>")
    case True
    then have "rint x = \<lfloor>x\<rfloor>" by (simp add: rint_def Let_def)
    moreover from assms(2) have "\<lfloor>x\<rfloor> \<le> hi" by (simp add: floor_le_iff)
    ultimately show ?thesis by simp
  next
    case False
    then have "of_int \<lfloor>x\<rfloor> < x" using of_int_floor_le [of x] by linarith
    with assms(2) have "of_int \<lfloor>x\<rfloor> < (of_int hi :: rat)" by simp
    then have "\<lfloor>x\<rfloor> < hi" by simp
    moreover have "rint x \<le> \<lfloor>x\<rfloor> + 1" by (simp add: rint_def Let_def)
    ultimately show ?thesis by simp
  qed
qed

lemma np_round_0: "np_round x 0 = of_int (rint x)"
  by (simp add: np_round_def)

section \<open>Runs on the example generator\<close>

text \<open>With raw outputs 0 every draw is its lower bound and the generator stays the same.\<close>

lemma rng0_tail: "snd (random_standard_uniform rng0) = rng0" "fst (random_standard_uniform rng0) = 0"
  by (simp_all add: random_standard_uniform_def rng0_def)

lemma rng0_uniform: "low \<le> high \<Longrightarrow> uniform low high rng0 = Inr (low, rng0)"
  by (simp add: uniform_def rng0_tail)

lemma rng0_uniform_size: "low \<le> high \<Longrightarrow> uniform_size low high n rng0 = Inr (replicate n low, rng0)"
  by (induction n) (simp_all add: rng0_uniform ebind_simps)

lemma np_round_int: "np_round (of_int z) 0 = of_int z"
  by (simp add: np_round_def rint_def)

lemma np_round_num [simp]: "np_round (numeral n) 0 = numeral n" "np_round 0 0 = 0"
  using np_round_int [of "numeral n"] np_round_int [of 0] by simp_all

lemma rng0_draw_from_lows:
  "list_all (\<lambda>x. x \<le> upper) lows \<Longrightarrow>
     draw_from_lows lows upper rng0 = Inr (map (\<lambda>x. np_round x 0) lows, rng0)"
  by (induction lows) (simp_all add: rng0_uniform ebind_simps)

lemmas run_defs =
  draw_population_sizes_def draw_divergence_times_def draw_migration_rates_def
  get_migration_stops_def get_migration_starts_def migration_start_event_def
  divergence_replicate_def sc_replicate_def dwg_replicate_def dwg_set_event_def
  set_initial_sizes_def non_ancestral_def zero_draws_def min_values_def
  lookup_def at_index_def ebind_simps rng0_uniform_size rng0_draw_from_lows
  sort_events_def startime_def upt_rec [of _ "numeral _"]

section \<open>Unfolding the writer and the reader on examples\<close>

lemmas schema_defs = sc_schema4_def dwg_schema4_def populations_schema4_def size_priors_schema4_def
  div_X_def div_Y_def div_root_def

lemmas writer_defs = sc_to_yaml_def dwg_to_yaml_def divergence_to_yaml_def get_popinfo_def
  get_divinfo_def get_scinfo_def get_dwginfo_def empty_yaml_def of_prior_def sc_relation_def
  dwg_relation_def the_list_def

lemmas reader_defs = read_yaml_info_def read_after_order_def divergence_list_ordered_def
  find_dependencies_def read_min_values_def parse_mintimes_def order_while.simps

section \<open>Facts about the draws\<close>

lemma map_of_zero_fold:
  "map_of (fold (\<lambda>x ds. AList.update x v ds) xs ds) k =
     (if k \<in> set xs then Some v else map_of ds k)"
  by (induction xs arbitrary: ds) (simp_all add: update_conv')

lemma map_of_zero_draws:
  "map_of (zero_draws n xs) k = (if k \<in> set xs then Some (replicate n 0) else None)"
  by (simp add: zero_draws_def map_of_zero_fold)

lemma int_draws_zero: "int_draws n (zero_draws n xs)"
  by (auto simp: int_draws_def map_of_zero_draws split: if_splits)

lemma int_draws_update:
  "int_draws n ds \<Longrightarrow> length ts = n \<Longrightarrow> set ts \<subseteq> \<int> \<Longrightarrow> \<forall>x \<in> set ts. 0 \<le> x \<Longrightarrow>
     int_draws n (AList.update k ts ds)"
  by (auto simp: int_draws_def update_conv')

lemma draw_from_lows_length:
  "draw_from_lows lows upper g = Inr (vs, g') \<Longrightarrow> length vs = length lows"
  by (induction lows arbitrary: vs g) (auto simp: ebind_Inr_iff)

lemma draw_from_lows_ints:
  "draw_from_lows lows upper g = Inr (vs, g') \<Longrightarrow> set vs \<subseteq> \<int>"
proof (induction lows arbitrary: vs g)
  case Nil
  then show ?case by simp
next
  case (Cons x lows)
  from Cons.prems obtain v g1 ws where
    rest: "draw_from_lows lows upper g1 = Inr (ws, g')" and
    vs: "vs = np_round v 0 # ws"
    by (auto simp: ebind_Inr_iff)
  from Cons.IH [OF rest] vs show ?case by (simp add: np_round_0)
qed

lemma np_round_0_range:
  assumes "lo \<in> \<int>" "hi \<in> \<int>" "lo \<le> x" "x \<le> hi"
  shows "lo \<le> np_round x 0" "np_round x 0 \<le> hi"
proof -
  from assms(1) obtain l where l: "lo = of_int l" by (rule Ints_cases)
  from assms(2) obtain h where h: "hi = of_int h" by (rule Ints_cases)
  note lh = l h
  with assms(3,4) have "l \<le> rint x" "rint x \<le> h"
    by (auto intro: rint_range)
  then show "lo \<le> np_round x 0" "np_round x 0 \<le> hi"
    by (simp_all add: lh np_round_0)
qed

lemma draw_from_lows_range:
  "draw_from_lows lows upper g = Inr (vs, g') \<Longrightarrow> set lows \<subseteq> \<int> \<Longrightarrow> upper \<in> \<int> \<Longrightarrow>
     i < length lows \<Longrightarrow> lows ! i \<le> vs ! i \<and> vs ! i \<le> upper"
proof (induction lows arbitrary: vs g i)
  case Nil
  then show ?case by simp
next
  case (Cons x lows)
  from Cons.prems(1) obtain v g1 ws where
    u: "uniform x upper g = Inr (v, g1)" and
    rest: "draw_from_lows lows upper g1 = Inr (ws, g')" and
    vs: "vs = np_round v 0 # ws"
    by (auto simp: ebind_Inr_iff)
  show ?case
  proof (cases i)
    case 0
    from uniform_range [OF u] Cons.prems(2,3)
    have "x \<le> np_round v 0 \<and> np_round v 0 \<le> upper"
      by (auto intro: np_round_0_range)
    with 0 vs show ?thesis by simp
  next
    case (Suc j)
    with Cons.prems have "lows ! j \<le> ws ! j \<and> ws ! j \<le> upper"
      by (intro Cons.IH [OF rest]) auto
    with Suc vs show ?thesis by simp
  qed
qed

lemma length_min_values:
  "length t0 = n \<Longrightarrow> length t1 = n \<Longrightarrow> length (min_values t0 t1 lower n) = n"
  by (simp add: min_values_def)

lemma nth_min_values:
  "length t0 = n \<Longrightarrow> length t1 = n \<Longrightarrow> i < n \<Longrightarrow>
     min_values t0 t1 lower n ! i = max (t0 ! i) (max (t1 ! i) lower)"
  by (simp add: min_values_def)

lemma min_values_ints:
  assumes "length t0 = n" "length t1 = n" "set t0 \<subseteq> \<int>" "set t1 \<subseteq> \<int>" "lower \<in> \<int>"
  shows "set (min_values t0 t1 lower n) \<subseteq> \<int>"
proof
  fix x assume "x \<in> set (min_values t0 t1 lower n)"
  then obtain i where i: "i < n" and x: "x = min_values t0 t1 lower n ! i"
    using assms(1,2) by (auto simp: in_set_conv_nth length_min_values)
  from i assms have "t0 ! i \<in> \<int>" "t1 ! i \<in> \<int>" by (auto simp: subset_iff)
  with assms(5) show "x \<in> \<int>"
    unfolding x nth_min_values [OF assms(1,2) i] by (auto simp: max_def)
qed

text \<open>The loop over the events writes the draws of the ancestral populations only.\<close>

lemma draw_divergence_events_frame:
  "draw_divergence_events n es pri ds g = Inr (ds', g') \<Longrightarrow> k \<notin> set (ancestral_names es) \<Longrightarrow>
     map_of ds' k = map_of ds k"
proof (induction n es pri ds g rule: draw_divergence_events.induct)
  case (1 n divergence_times ds g)
  then show ?case by simp
next
  case (2 n t derived a es divergence_times ds g)
  show ?case
  proof (cases "t \<noteq> Fin 0")
    case True
    with "2.prems"(1) obtain d0 t0 d1 t1 lower upper vs g1 where
      rest: "draw_divergence_events n es divergence_times (AList.update a vs ds) g1 = Inr (ds', g')"
      and facts: "at_index derived 0 = Inr d0" "lookup ds d0 = Inr t0"
        "at_index derived 1 = Inr d1" "lookup ds d1 = Inr t1"
        "lookup divergence_times a = Inr (lower, upper)"
        "draw_from_lows (min_values t0 t1 (of_int lower) n) (of_int upper) g = Inr (vs, g1)"
      by (auto simp: ebind_Inr_iff)
    from "2.IH"(1) [OF True rest] "2.prems"(2)
    show ?thesis by (simp add: update_conv')
  next
    case False
    with "2.prems"(1) have
      rest: "draw_divergence_events n es divergence_times (AList.update a (replicate n 0) ds) g
               = Inr (ds', g')" by simp
    from False have "\<not> t \<noteq> Fin 0" by simp
    from "2.IH"(2) [OF this rest] "2.prems"(2) show ?thesis by (simp add: update_conv')
  qed
qed simp_all


lemma draw_from_lows_nonneg:
  assumes "draw_from_lows lows upper g = Inr (vs, g')" "set lows \<subseteq> \<int>" "upper \<in> \<int>"
    "\<forall>x \<in> set lows. 0 \<le> x"
  shows "\<forall>x \<in> set vs. 0 \<le> x"
proof
  fix x assume "x \<in> set vs"
  then obtain i where i: "i < length vs" "x = vs ! i" by (auto simp: in_set_conv_nth)
  from draw_from_lows_length [OF assms(1)] i(1) have il: "i < length lows" by simp
  from draw_from_lows_range [OF assms(1,2,3) il] have "lows ! i \<le> vs ! i" by simp
  moreover from il assms(4) have "0 \<le> lows ! i" by simp
  ultimately show "0 \<le> x" using i(2) by simp
qed

lemma min_values_nonneg:
  assumes "length t0 = n" "length t1 = n" "\<forall>x \<in> set t0. 0 \<le> x"
  shows "\<forall>x \<in> set (min_values t0 t1 lower n). 0 \<le> x"
proof
  fix x assume "x \<in> set (min_values t0 t1 lower n)"
  then obtain i where i: "i < n" and x: "x = min_values t0 t1 lower n ! i"
    using assms(1,2) by (auto simp: in_set_conv_nth length_min_values)
  from i assms(1,3) have "0 \<le> t0 ! i" by simp
  then show "0 \<le> x"
    unfolding x nth_min_values [OF assms(1,2) i] by (simp add: max_def)
qed

lemma int_draws_step:
  assumes inv: "int_draws n ds"
    and t0: "lookup ds d0 = Inr t0" and t1: "lookup ds d1 = Inr t1"
    and dr: "draw_from_lows (min_values t0 t1 (of_int lower) n) (of_int upper) g = Inr (vs, g1)"
  shows "int_draws n (AList.update a vs ds)"
proof -
  from inv t0 have p0: "length t0 = n" "set t0 \<subseteq> \<int>" "\<forall>x \<in> set t0. 0 \<le> x"
    by (auto simp: int_draws_def lookup_Inr_iff)
  from inv t1 have p1: "length t1 = n" "set t1 \<subseteq> \<int>"
    by (auto simp: int_draws_def lookup_Inr_iff)
  have mi: "set (min_values t0 t1 (of_int lower) n) \<subseteq> \<int>"
    using p0 p1 by (intro min_values_ints) simp_all
  have mn: "\<forall>x \<in> set (min_values t0 t1 (of_int lower) n). 0 \<le> x"
    using p0 p1 by (intro min_values_nonneg) simp_all
  have "length vs = n"
    using draw_from_lows_length [OF dr] p0 p1 by (simp add: length_min_values)
  moreover have "set vs \<subseteq> \<int>" by (rule draw_from_lows_ints [OF dr])
  moreover have "\<forall>x \<in> set vs. 0 \<le> x"
    by (rule draw_from_lows_nonneg [OF dr mi _ mn]) simp
  ultimately show ?thesis using inv by (intro int_draws_update)
qed

lemma int_draws_events:
  "draw_divergence_events n es pri ds g = Inr (ds', g') \<Longrightarrow> int_draws n ds \<Longrightarrow> int_draws n ds'"
proof (induction n es pri ds g rule: draw_divergence_events.induct)
  case (1 n divergence_times ds g)
  then show ?case by simp
next
  case (2 n t derived a es divergence_times ds g)
  show ?case
  proof (cases "t \<noteq> Fin 0")
    case True
    with "2.prems"(1) obtain d0 t0 d1 t1 lower upper vs g1 where
      rest: "draw_divergence_events n es divergence_times (AList.update a vs ds) g1 = Inr (ds', g')"
      and facts: "lookup ds d0 = Inr t0" "lookup ds d1 = Inr t1"
        "draw_from_lows (min_values t0 t1 (of_int lower) n) (of_int upper) g = Inr (vs, g1)"
      by (auto simp: ebind_Inr_iff)
    from "2.IH"(1) [OF True rest] int_draws_step [OF "2.prems"(2) facts]
    show ?thesis by simp
  next
    case False
    with "2.prems"(1) have
      rest: "draw_divergence_events n es divergence_times (AList.update a (replicate n 0) ds) g
               = Inr (ds', g')" by simp
    from False have f: "\<not> t \<noteq> Fin 0" by simp
    have "int_draws n (AList.update a (replicate n 0) ds)"
      using "2.prems"(2) by (intro int_draws_update) auto
    from "2.IH"(2) [OF f rest this] show ?thesis .
  qed
qed simp_all


text \<open>
  The draw of an ancestral population lies between the draws of its two derived
  populations and the upper bound of its prior, and no later event changes any of them.
\<close>

lemma draw_divergence_events_bounds:
  assumes "draw_divergence_events n es pri ds g = Inr (ds', g')"
    and "distinct (ancestral_names es)"
    and "set (ancestral_names es) \<inter> dom (map_of ds) = {}"
    and "int_draws n ds"
    and "PopulationSplit t [d0, d1] a \<in> set es" "t \<noteq> Fin 0" "rep < n"
  shows "\<exists>ts t0 t1 lower upper.
           map_of ds' a = Some ts \<and> map_of ds' d0 = Some t0 \<and> map_of ds' d1 = Some t1
           \<and> map_of pri a = Some (lower, upper)
           \<and> t0 ! rep \<le> ts ! rep \<and> t1 ! rep \<le> ts ! rep
           \<and> of_int lower \<le> ts ! rep \<and> ts ! rep \<le> of_int upper"
  using assms
proof (induction n es pri ds g rule: draw_divergence_events.induct)
  case (1 n divergence_times ds g)
  then show ?case by simp
next
  case (2 n t' derived a' es divergence_times ds g)
  from "2.prems"(2) have dist: "distinct (ancestral_names es)" and fresh: "a' \<notin> set (ancestral_names es)"
    by simp_all
  from "2.prems"(3) have a'new: "a' \<notin> dom (map_of ds)"
    and disj: "set (ancestral_names es) \<inter> dom (map_of ds) = {}"
    by auto
  show ?case
  proof (cases "t' \<noteq> Fin 0")
    case True
    with "2.prems"(1) obtain e0 t0 e1 t1 lower upper vs g1 where
      rest: "draw_divergence_events n es divergence_times (AList.update a' vs ds) g1 = Inr (ds', g')"
      and facts: "at_index derived 0 = Inr e0" "lookup ds e0 = Inr t0"
        "at_index derived 1 = Inr e1" "lookup ds e1 = Inr t1"
        "lookup divergence_times a' = Inr (lower, upper)"
      and dr: "draw_from_lows (min_values t0 t1 (of_int lower) n) (of_int upper) g = Inr (vs, g1)"
      by (auto simp: ebind_Inr_iff)
    have inv1: "int_draws n (AList.update a' vs ds)"
      by (rule int_draws_step [OF "2.prems"(4) facts(2,4) dr])
    have disj1: "set (ancestral_names es) \<inter> dom (map_of (AList.update a' vs ds)) = {}"
      using disj fresh by (auto simp: update_conv')
    show ?thesis
    proof (cases "PopulationSplit t [d0, d1] a \<in> set es")
      case True
      from "2.IH"(1) [OF \<open>t' \<noteq> Fin 0\<close> rest dist disj1 inv1 True "2.prems"(6,7)]
      show ?thesis .
    next
      case False
      with "2.prems"(5) have eq: "t = t'" "derived = [d0, d1]" "a = a'" by simp_all
      from facts(1,3) eq have e: "e0 = d0" "e1 = d1" by (simp_all add: at_index_Inr_iff)
      from facts(2,4) e have m0: "map_of ds d0 = Some t0" and m1: "map_of ds d1 = Some t1"
        by (simp_all add: lookup_Inr_iff)
      from m0 m1 disj a'new have nd: "d0 \<notin> set (ancestral_names es)" "d1 \<notin> set (ancestral_names es)"
        "d0 \<noteq> a'" "d1 \<noteq> a'"
        by auto
      have fa: "map_of ds' a = Some vs"
        using draw_divergence_events_frame [OF rest fresh] eq by (simp add: update_conv')
      have f0: "map_of ds' d0 = Some t0"
        using draw_divergence_events_frame [OF rest nd(1)] nd(3) m0 by (simp add: update_conv')
      have f1: "map_of ds' d1 = Some t1"
        using draw_divergence_events_frame [OF rest nd(2)] nd(4) m1 by (simp add: update_conv')
      from "2.prems"(4) m0 m1 have p: "length t0 = n" "set t0 \<subseteq> \<int>" "length t1 = n" "set t1 \<subseteq> \<int>"
        by (auto simp: int_draws_def)
      have mi: "set (min_values t0 t1 (of_int lower) n) \<subseteq> \<int>"
        using p by (intro min_values_ints) simp_all
      have ir: "rep < length (min_values t0 t1 (of_int lower) n)"
        using p "2.prems"(7) by (simp add: length_min_values)
      from draw_from_lows_range [OF dr mi _ ir]
      have "min_values t0 t1 (of_int lower) n ! rep \<le> vs ! rep \<and> vs ! rep \<le> of_int upper"
        by simp
      then have b: "t0 ! rep \<le> vs ! rep" "t1 ! rep \<le> vs ! rep" "of_int lower \<le> vs ! rep"
        "vs ! rep \<le> of_int upper"
        using p "2.prems"(7) by (simp_all add: nth_min_values)
      from facts(5) eq have "map_of divergence_times a = Some (lower, upper)"
        by (simp add: lookup_Inr_iff)
      with fa f0 f1 b show ?thesis by blast
    qed
  next
    case False
    with "2.prems"(1) have
      rest: "draw_divergence_events n es divergence_times (AList.update a' (replicate n 0) ds) g
               = Inr (ds', g')" by simp
    from False have f: "\<not> t' \<noteq> Fin 0" by simp
    have inv1: "int_draws n (AList.update a' (replicate n 0) ds)"
      using "2.prems"(4) by (intro int_draws_update) auto
    have disj1: "set (ancestral_names es) \<inter> dom (map_of (AList.update a' (replicate n 0) ds)) = {}"
      using disj fresh by (auto simp: update_conv')
    from "2.prems"(5,6) False have mem: "PopulationSplit t [d0, d1] a \<in> set es" by auto
    from "2.IH"(2) [OF f rest dist disj1 inv1 mem "2.prems"(6,7)] show ?thesis .
  qed
qed auto

section \<open>Facts about the migration stops\<close>

lemma positive_draws_Nil [simp]: "positive_draws rep [] = {}"
  by (simp add: positive_draws_def)

lemma positive_draws_Cons:
  "positive_draws rep ((k, ts) # ds) =
     (if 0 < ts ! rep then insert (ts ! rep) (positive_draws rep ds) else positive_draws rep ds)"
  by (auto simp: positive_draws_def)

lemma finite_positive_draws: "finite (positive_draws rep ds)"
  by (induction ds) (auto simp: positive_draws_Cons)

lemma minimum_divergence_char:
  "minimum_divergence rep ds m = Inr m' \<Longrightarrow>
     (case m' of
        PosInf \<Rightarrow> m = PosInf \<and> positive_draws rep ds = {}
      | Fin x \<Rightarrow> (x \<in> positive_draws rep ds \<or> m = Fin x)
                 \<and> (\<forall>y \<in> positive_draws rep ds. x \<le> y)
                 \<and> (\<forall>z. m = Fin z \<longrightarrow> x \<le> z))"
proof (induction ds arbitrary: m)
  case Nil
  then show ?case by (auto split: pyfloat.splits)
next
  case (Cons p ds)
  obtain k ts where p: "p = (k, ts)" by (cases p)
  from Cons.prems p obtain t where
    t: "at_index ts rep = Inr t" and
    rest: "minimum_divergence rep ds (if 0 < t \<and> less_pyfloat t m then Fin t else m) = Inr m'"
    by (auto simp: ebind_Inr_iff)
  from t have tt: "t = ts ! rep" by (auto simp: at_index_Inr_iff)
  from Cons.IH [OF rest] show ?case
    unfolding p positive_draws_Cons tt
    by (cases m; cases m') (auto split: if_splits)
qed

lemma minimum_divergence_Min:
  assumes "minimum_divergence rep ds PosInf = Inr m'"
  shows "m' = (if positive_draws rep ds = {} then PosInf else Fin (Min (positive_draws rep ds)))"
proof (cases m')
  case PosInf
  with minimum_divergence_char [OF assms] show ?thesis by simp
next
  case (Fin x)
  with minimum_divergence_char [OF assms]
  have mem: "x \<in> positive_draws rep ds" and le: "\<forall>y \<in> positive_draws rep ds. x \<le> y"
    by simp_all
  have "Min (positive_draws rep ds) = x"
    using finite_positive_draws le mem by (intro Min_eqI) auto
  with mem Fin show ?thesis by auto
qed

lemma get_migration_stops_nth:
  assumes "get_migration_stops cfg dd = Inr stops" "rep < replicates cfg"
  shows "rep < length stops" 
    "stops ! rep = (if positive_draws rep dd = {} then PosInf
                    else Fin (of_int \<lceil>Min (positive_draws rep dd) / 2\<rceil>))"
proof -
  from assms(1) obtain ms where
    ms: "emap (\<lambda>rep. minimum_divergence rep dd PosInf) [0 ..< replicates cfg] = Inr ms" and
    stops: "stops = map ceil_half ms"
    by (auto simp: get_migration_stops_def ebind_Inr_iff)
  from emap_length [OF ms] have len: "length ms = replicates cfg" by simp
  with stops assms(2) show "rep < length stops" by simp
  from emap_nth [OF ms, of rep] assms(2)
  have "minimum_divergence rep dd PosInf = Inr (ms ! rep)" by simp
  from minimum_divergence_Min [OF this] stops len assms(2)
  show "stops ! rep = (if positive_draws rep dd = {} then PosInf
                    else Fin (of_int \<lceil>Min (positive_draws rep dd) / 2\<rceil>))"
    by simp
qed


lemma distinct_zero_fold:
  "distinct (map fst ds) \<Longrightarrow> distinct (map fst (fold (\<lambda>x ds. AList.update x v ds) xs ds))"
  by (induction xs arbitrary: ds) (simp_all add: distinct_update)

lemma distinct_zero_draws: "distinct (map fst (zero_draws n xs))"
  by (simp add: zero_draws_def distinct_zero_fold)

lemma distinct_draw_divergence_events:
  "draw_divergence_events n es pri ds g = Inr (ds', g') \<Longrightarrow> distinct (map fst ds) \<Longrightarrow>
     distinct (map fst ds')"
proof (induction n es pri ds g rule: draw_divergence_events.induct)
  case (1 n divergence_times ds g)
  then show ?case by simp
next
  case (2 n t derived a es divergence_times ds g)
  show ?case
  proof (cases "t \<noteq> Fin 0")
    case True
    with "2.prems"(1) obtain vs g1 where
      rest: "draw_divergence_events n es divergence_times (AList.update a vs ds) g1 = Inr (ds', g')"
      by (auto simp: ebind_Inr_iff)
    from "2.IH"(1) [OF True rest] "2.prems"(2) show ?thesis by (simp add: distinct_update)
  next
    case False
    with "2.prems"(1) have
      rest: "draw_divergence_events n es divergence_times (AList.update a (replicate n 0) ds) g
               = Inr (ds', g')" by simp
    from False have f: "\<not> t \<noteq> Fin 0" by simp
    from "2.IH"(2) [OF f rest] "2.prems"(2) show ?thesis by (simp add: distinct_update)
  qed
qed simp_all

lemma ancestral_names_iff:
  "a \<in> set (ancestral_names es) \<longleftrightarrow> (\<exists>t d. PopulationSplit t d a \<in> set es)"
  by (induction es rule: ancestral_names.induct) auto

text \<open>What \<open>_draw_divergence_times\<close> returns.\<close>

lemma draw_divergence_times_facts:
  assumes "draw_divergence_times cfg pd model divergence_times g = Inr (dd, g')"
  shows "int_draws (replicates cfg) dd" "distinct (map fst dd)"
    "\<And>k ts. (k, ts) \<in> set dd \<Longrightarrow> k \<notin> set (ancestral_names (events model)) \<Longrightarrow>
        ts = replicate (replicates cfg) 0"
proof -
  let ?n = "replicates cfg"
  let ?zero = "zero_draws ?n (non_ancestral pd (events model))"
  from assms have run:
    "draw_divergence_events ?n (events model) divergence_times ?zero g = Inr (dd, g')"
    by (simp add: draw_divergence_times_def)
  show "int_draws ?n dd" by (rule int_draws_events [OF run int_draws_zero])
  show d: "distinct (map fst dd)"
    by (rule distinct_draw_divergence_events [OF run distinct_zero_draws])
  fix k ts assume "(k, ts) \<in> set dd" "k \<notin> set (ancestral_names (events model))"
  with d draw_divergence_events_frame [OF run, of k]
  have "map_of ?zero k = Some ts" by simp
  then show "ts = replicate ?n 0" by (simp add: map_of_zero_draws split: if_splits)
qed

text \<open>The events of a secondary-contact replicate.\<close>

lemma sc_set_time_split:
  "sc_set_time dd stops rep e0 = Inr (PopulationSplit t d a) \<Longrightarrow>
     \<exists>t0 ts. e0 = PopulationSplit t0 d a \<and> map_of dd a = Some ts \<and> rep < length ts
             \<and> t = Fin (ts ! rep)"
  by (cases e0) (auto simp: ebind_Inr_iff lookup_Inr_iff at_index_Inr_iff)

lemma sc_set_time_rate:
  "sc_set_time dd stops rep e0 = Inr e \<Longrightarrow> has_rate e \<Longrightarrow>
     rep < length stops \<and> event_time e = stops ! rep"
  by (cases e0) (auto simp: ebind_Inr_iff lookup_Inr_iff at_index_Inr_iff)

lemma sc_set_time_of_split:
  "sc_set_time dd stops rep (PopulationSplit t0 d a) = Inr e \<Longrightarrow>
     \<exists>ts. map_of dd a = Some ts \<and> rep < length ts \<and> e = PopulationSplit (Fin (ts ! rep)) d a"
  by (auto simp: ebind_Inr_iff lookup_Inr_iff at_index_Inr_iff)

lemma sc_replicate_events:
  "sc_replicate cfg m pd dd rd stops rep = Inr r \<Longrightarrow>
     emap (sc_set_time dd stops rep) (events m) = Inr (events r)"
  by (auto simp: sc_replicate_def ebind_Inr_iff)

lemma sc_replicate_times:
  assumes dd: "draw_divergence_times cfg pd m divergence_times g = Inr (dd, g')"
    and r: "sc_replicate cfg m pd dd rd stops rep = Inr r"
    and rep: "rep < replicates cfg"
  shows "positive_draws rep dd = nonzero_split_times r"
proof (intro set_eqI iffI)
  note ev = sc_replicate_events [OF r]
  note facts = draw_divergence_times_facts [OF dd]
  fix x
  {
    assume "x \<in> positive_draws rep dd"
    then obtain k ts where kts: "(k, ts) \<in> set dd" and x: "x = ts ! rep" and pos: "0 < ts ! rep"
      by (auto simp: positive_draws_def)
    have "k \<in> set (ancestral_names (events m))"
    proof (rule ccontr)
      assume "k \<notin> set (ancestral_names (events m))"
      from facts(3) [OF kts this] rep pos show False by simp
    qed
    then obtain t0 d where e0: "PopulationSplit t0 d k \<in> set (events m)"
      by (auto simp: ancestral_names_iff)
    from emap_image [OF ev e0] obtain e where
      e: "e \<in> set (events r)" "sc_set_time dd stops rep (PopulationSplit t0 d k) = Inr e"
      by blast
    from facts(2) kts have "map_of dd k = Some ts" by simp
    with sc_set_time_of_split [OF e(2)] have "e = PopulationSplit (Fin (ts ! rep)) d k" by auto
    with e(1) x pos show "x \<in> nonzero_split_times r"
      by (auto simp: nonzero_split_times_def)
  }
  {
    assume "x \<in> nonzero_split_times r"
    then obtain d a where e: "PopulationSplit (Fin x) d a \<in> set (events r)" and nz: "x \<noteq> 0"
      by (auto simp: nonzero_split_times_def)
    from emap_set [OF ev e] obtain e0 where
      "sc_set_time dd stops rep e0 = Inr (PopulationSplit (Fin x) d a)" by blast
    from sc_set_time_split [OF this] obtain ts where
      ts: "map_of dd a = Some ts" "rep < length ts" "x = ts ! rep" by auto
    from facts(1) ts have "0 \<le> x" by (auto simp: int_draws_def)
    with nz have "0 < ts ! rep" using ts(3) by simp
    moreover from ts(1) have "(a, ts) \<in> set dd" by (rule map_of_SomeD)
    ultimately show "x \<in> positive_draws rep dd" using ts(3)
      by (auto simp: positive_draws_def)
  }
qed

section \<open>Eligible pairs come from cells marked T\<close>

lemma sc_cell_True:
  "sc_cell es index colname v = Inr True \<Longrightarrow> index \<noteq> colname \<and> v = ''T''"
  by (simp add: sc_cell_def split: if_splits)

lemma sc_row_sound:
  "sc_row es index row acc = Inr ps \<Longrightarrow> (p, q) \<in> set ps \<Longrightarrow>
     (p, q) \<in> set acc \<or> (p = index \<and> p \<noteq> q \<and> (q, ''T'') \<in> set row)"
proof (induction row arbitrary: acc)
  case Nil
  then show ?case by simp
next
  case (Cons c row)
  obtain colname v where c: "c = (colname, v)" by (cases c)
  from Cons.prems(1) c obtain inc where
    cell: "sc_cell es index colname v = Inr inc" and
    rest: "sc_row es index row (if inc then acc @ [(index, colname)] else acc) = Inr ps"
    by (auto split: sum.splits)
  from Cons.IH [OF rest Cons.prems(2)]
  consider "(p, q) \<in> set (if inc then acc @ [(index, colname)] else acc)"
    | "p = index \<and> p \<noteq> q \<and> (q, ''T'') \<in> set row"
    by blast
  then show ?case
  proof cases
    case 1
    show ?thesis
    proof (cases inc)
      case True
      with cell have "index \<noteq> colname \<and> v = ''T''" by (simp add: sc_cell_True)
      with 1 True c show ?thesis by auto
    next
      case False
      with 1 show ?thesis by simp
    qed
  next
    case 2
    then show ?thesis by (auto simp: c)
  qed
qed

lemma sc_rows_sound:
  "sc_rows es df acc = Inr ps \<Longrightarrow> (p, q) \<in> set ps \<Longrightarrow>
     (p, q) \<in> set acc \<or> (p, q) \<in> marked_T df"
proof (induction df arbitrary: acc)
  case Nil
  then show ?case by simp
next
  case (Cons r df)
  obtain index row where r: "r = (index, row)" by (cases r)
  from Cons.prems(1) r obtain acc' where
    row: "sc_row es index row acc = Inr acc'" and
    rest: "sc_rows es df acc' = Inr ps"
    by (auto split: sum.splits)
  from Cons.IH [OF rest Cons.prems(2)]
  consider "(p, q) \<in> set acc'" | "(p, q) \<in> marked_T df" by blast
  then show ?case
  proof cases
    case 1
    from sc_row_sound [OF row 1] show ?thesis
      by (auto simp: marked_T_def r)
  next
    case 2
    then show ?thesis by (auto simp: marked_T_def)
  qed
qed

lemma dwg_cell_True:
  "dwg_cell es index colname v = Inr True \<Longrightarrow> index \<noteq> colname \<and> v = ''T''"
  by (simp add: dwg_cell_def split: if_splits)

lemma dwg_row_sound:
  "dwg_row es index row acc = Inr ps \<Longrightarrow> (p, q) \<in> set ps \<Longrightarrow>
     (p, q) \<in> set acc \<or> (p = index \<and> p \<noteq> q \<and> (q, ''T'') \<in> set row)"
proof (induction row arbitrary: acc)
  case Nil
  then show ?case by simp
next
  case (Cons c row)
  obtain colname v where c: "c = (colname, v)" by (cases c)
  from Cons.prems(1) c obtain inc where
    cell: "dwg_cell es index colname v = Inr inc" and
    rest: "dwg_row es index row (if inc then acc @ [(index, colname)] else acc) = Inr ps"
    by (auto split: sum.splits)
  from Cons.IH [OF rest Cons.prems(2)]
  consider "(p, q) \<in> set (if inc then acc @ [(index, colname)] else acc)"
    | "p = index \<and> p \<noteq> q \<and> (q, ''T'') \<in> set row"
    by blast
  then show ?case
  proof cases
    case 1
    show ?thesis
    proof (cases inc)
      case True
      with cell have "index \<noteq> colname \<and> v = ''T''" by (simp add: dwg_cell_True)
      with 1 True c show ?thesis by auto
    next
      case False
      with 1 show ?thesis by simp
    qed
  next
    case 2
    then show ?thesis by (auto simp: c)
  qed
qed

lemma dwg_rows_sound:
  "dwg_rows es df acc = Inr ps \<Longrightarrow> (p, q) \<in> set ps \<Longrightarrow>
     (p, q) \<in> set acc \<or> (p, q) \<in> marked_T df"
proof (induction df arbitrary: acc)
  case Nil
  then show ?case by simp
next
  case (Cons r df)
  obtain index row where r: "r = (index, row)" by (cases r)
  from Cons.prems(1) r obtain acc' where
    row: "dwg_row es index row acc = Inr acc'" and
    rest: "dwg_rows es df acc' = Inr ps"
    by (auto split: sum.splits)
  from Cons.IH [OF rest Cons.prems(2)]
  consider "(p, q) \<in> set acc'" | "(p, q) \<in> marked_T df" by blast
  then show ?case
  proof cases
    case 1
    from dwg_row_sound [OF row 1] show ?thesis
      by (auto simp: marked_T_def r)
  next
    case 2
    then show ?thesis by (auto simp: marked_T_def)
  qed
qed


text \<open>
  C10: a pair returned by \<open>_find_sc_to_include\<close> or by \<open>_find_dwg_to_include\<close> is a
  pair of two different names whose cell of the migration matrix (row of the first name,
  column of the second) holds the string T. A pair whose cell is not marked T is never
  returned, whatever the events of the topology are.
\<close>

theorem eligible_pair_marked_T:
  assumes "find_sc_to_include df item = Inr ps \<or> find_dwg_to_include df item = Inr ps"
    and "(p, q) \<in> set ps"
  shows "p \<noteq> q \<and> (\<exists>row. (p, row) \<in> set df \<and> (q, ''T'') \<in> set row)"
proof -
  from assms(1) have "(p, q) \<in> marked_T df"
  proof
    assume "find_sc_to_include df item = Inr ps"
    then have "sc_rows (events item) df [] = Inr ps"
      by (simp add: find_sc_to_include_def)
    from sc_rows_sound [OF this assms(2)] show ?thesis by simp
  next
    assume "find_dwg_to_include df item = Inr ps"
    then have "dwg_rows (events item) df [] = Inr ps"
      by (simp add: find_dwg_to_include_def)
    from dwg_rows_sound [OF this assms(2)] show ?thesis by simp
  qed
  then show ?thesis by (simp add: marked_T_def)
qed

lemma find_sc_item_AB:
  "find_sc_to_include df_AB item_AB = Inr [(''A'', ''B''), (''B'', ''A'')]"
  by (simp add: find_sc_to_include_def df_AB_def item_AB_def sc_cell_def
      sc_check_population_def)

lemma find_dwg_item_AB:
  "find_dwg_to_include df_AB item_AB = Inr [(''A'', ''B''), (''B'', ''A'')]"
  by (simp add: find_dwg_to_include_def df_AB_def item_AB_def dwg_cell_def)

theorem eligible_pair_marked_T_witness:
  "find_sc_to_include df_AB item_AB = Inr [(''A'', ''B''), (''B'', ''A'')]
   \<and> (''A'', ''B'') \<in> set [(''A'', ''B''), (''B'', ''A'')]
   \<and> ''A'' \<noteq> ''B''
   \<and> (\<exists>row. (''A'', row) \<in> set df_AB \<and> (''B'', ''T'') \<in> set row)"
proof -
  have h1: "find_sc_to_include df_AB item_AB = Inr [(''A'', ''B''), (''B'', ''A'')]
            \<or> find_dwg_to_include df_AB item_AB = Inr [(''A'', ''B''), (''B'', ''A'')]"
    by (simp add: find_sc_item_AB)
  have h2: "(''A'', ''B'') \<in> set [(''A'', ''B''), (''B'', ''A'')]" by simp
  from eligible_pair_marked_T [OF h1 h2] find_sc_item_AB h2 show ?thesis by blast
qed

section \<open>Topology enumeration\<close>

text \<open>
  C1: the enumeration should keep exactly the combinations in which every internal node
  below a chosen node is chosen too. On the balanced tree ((A,B)X,(C,D)Y)root the code
  keeps the combinations [root, X] and [root, Y], in which the root is collapsed while one
  of the internal nodes below it is not: only the last node of a combination is tested.
\<close>

theorem remove_conflicting_keeps_gap:
  "remove_conflicting (collapse_combos (config_of tree4 False)) =
     Inr [[node_X], [node_Y], [tree4, node_X], [tree4, node_Y], [node_X, node_Y],
          [tree4, node_X, node_Y]]
   \<and> \<not> contiguity_valid [tree4, node_X]
   \<and> \<not> contiguity_valid [tree4, node_Y]"
  by code_simp

text \<open>
  Building the demography of the kept combination [root, Y] raises: its populations are
  A, B and root, and the split of A and B names the ancestral population X, which
  \<open>add_population_split\<close> does not find. So the enumeration of the divergence
  demographies raises on the balanced tree, and \<open>build_models\<close> with it.
\<close>

lemma combo_demography_root_Y:
  "combo_demography (config_of tree4 False) [tree4, node_Y] = Inl KeyError"
  by code_simp

lemma create_divergence_demographies_tree4:
  "create_divergence_demographies (config_of tree4 symm) = Inl KeyError"
  by (cases symm) (simp_all, code_simp+)

lemma build_models_tree4:
  "build_models (config_of tree4 symm) = Inl Exception"
  by (simp add: build_models_def create_divergence_demographies_tree4 ebind_def reraise_def)

section \<open>Secondary contact with asymmetric migration\<close>

text \<open>
  In asymmetric mode the loop of \<open>_create_sc_demographies\<close> reads \<open>to_include\<close> before
  anything has assigned it, whatever the divergence demographies are.
\<close>

lemma sc_items_asymmetric:
  "\<not> symmetric cfg \<Longrightarrow> \<exists>e. sc_items cfg (item # items) None = Inl e"
  by (cases "find_sc_to_include (migration_df cfg) item") (simp_all add: ebind_def)

lemma dwg_items_asymmetric:
  "\<not> symmetric cfg \<Longrightarrow> \<exists>e. dwg_items cfg (item # items) None = Inl e"
  by (cases "find_dwg_to_include (migration_df cfg) item") (simp_all add: ebind_def)

text \<open>
  C2: on the tree ((A,B)X,C)root, with asymmetric migration and at most one migration
  event, the enumeration of the secondary-contact topologies should give one topology
  with migration from A to B and one with migration from B to A. The code raises
  instead: no secondary-contact topology is produced.
\<close>

theorem create_sc_asymmetric_raises:
  "create_divergence_demographies (config_of tree3 False) =
     Inr [\<lparr>populations =
             [\<lparr>name = ''X'', initial_size = 1000\<rparr>, \<lparr>name = ''C'', initial_size = 1000\<rparr>,
              \<lparr>name = ''root'', initial_size = 1000\<rparr>],
           events = [PopulationSplit (Fin 1000) [''X'', ''C''] ''root''],
           migration_matrix = []\<rparr>,
          \<lparr>populations = [\<lparr>name = ''root'', initial_size = 1000\<rparr>], events = [],
           migration_matrix = []\<rparr>,
          \<lparr>populations =
             [\<lparr>name = ''A'', initial_size = 1000\<rparr>, \<lparr>name = ''B'', initial_size = 1000\<rparr>,
              \<lparr>name = ''X'', initial_size = 1000\<rparr>, \<lparr>name = ''C'', initial_size = 1000\<rparr>,
              \<lparr>name = ''root'', initial_size = 1000\<rparr>],
           events =
             [PopulationSplit (Fin 1000) [''A'', ''B''] ''X'',
              PopulationSplit (Fin 1000) [''X'', ''C''] ''root''],
           migration_matrix = []\<rparr>]
   \<and> ebind (create_divergence_demographies (config_of tree3 False))
         (create_sc_demographies (config_of tree3 False)) = Inl UnboundLocalError"
  by code_simp

section \<open>Chronological order of the replicates\<close>

text \<open>
  On the tree ((A,B)X,C)root with symmetric migration between A and B, \<open>build_models\<close>
  stores three divergence topologies, one secondary-contact topology and one gene-flow
  topology.
\<close>

lemma build_models_builder3: "build_models (config_of tree3 True) = Inr builder3"
  by code_simp

lemma build_models_tree3:
  "map_sum id sc_demographies (build_models (config_of tree3 True)) = Inr [sc_topology3]"
  by (simp add: build_models_builder3 builder3_def)

text \<open>
  \<open>_draw_parameters_dwg\<close> sorts the events of every replicate it builds.
\<close>

lemma dwg_replicate_chronological:
  "dwg_replicate cfg original_model ks pd dd rd migration_start rep = Inr r \<Longrightarrow> chronological r"
  by (auto simp: dwg_replicate_def ebind_Inr_iff chronological_def event_times_def
      sort_events_def comp_def)

text \<open>
  C6: after the parameters are drawn, the events of every replicate of every category
  should be in non-decreasing order of time. \<open>_draw_parameters_dwg\<close> sorts the events of
  its replicates; \<open>_draw_parameters_sc\<close> does not. On the tree ((A,B)X,C)root with
  symmetric migration between A and B, with X drawn in 0..10 and the root in 20..30,
  \<open>build_models\<close> and \<open>draw_parameters\<close> return the replicates of five models. When X
  is drawn at 0 and the root at 20, migration stops at 10 in the secondary-contact
  replicates, whose events are at the times 10, 0 and 20, in this order.
\<close>

theorem sc_replicates_unsorted:
  "map_sum id (map (map event_times))
     (ebind (build_models (config_of tree3 True))
        (\<lambda>b. result (draw_parameters (config_of tree3 True) b times3_low sizes3 rng0)))
     = Inr [[[Fin 20], [Fin 20]],
            [[], []],
            [[Fin 0, Fin 20], [Fin 0, Fin 20]],
            [[Fin 10, Fin 0, Fin 20], [Fin 10, Fin 0, Fin 20]],
            [[Fin 0, Fin 0, Fin 20], [Fin 0, Fin 0, Fin 20]]]
   \<and> \<not> sorted (map time_key [Fin 10, Fin 0, Fin 20])"
proof -
  have "map_sum id (map (map event_times))
     (result (draw_parameters (config_of tree3 True) builder3 times3_low sizes3 rng0))
     = Inr [[[Fin 20], [Fin 20]],
            [[], []],
            [[Fin 0, Fin 20], [Fin 0, Fin 20]],
            [[Fin 10, Fin 0, Fin 20], [Fin 10, Fin 0, Fin 20]],
            [[Fin 0, Fin 0, Fin 20], [Fin 0, Fin 0, Fin 20]]]"
    by (simp add: builder3_def draw_parameters_def result_def
      event_times_def config_of_def sc_topology3_def collapsed3_def
      topology3_def sizes3_def times3_low_def run_defs eval_nat_numeral np_round_def rint_def
      del: uniform_size.simps draw_from_lows.simps)
  then show ?thesis by (simp add: build_models_builder3 ebind_def)
qed
section \<open>Schema Reader: what one read gives\<close>

lemma writer_gives_sc_schema4:
  "ebind (result (draw_parameters_sc (config_of tree4 True) [sc_topology4] times4 sizes4 rng0))
     (\<lambda>models. sc_to_yaml (config_of tree4 True) sizes4 times4 (hd models)) = Inr sc_schema4"
  by (simp add: result_def config_of_def sc_topology4_def
      topology4_def sizes4_def times4_def run_defs eval_nat_numeral writer_defs schema_defs
      del: uniform_size.simps draw_from_lows.simps)

lemma writer_gives_dwg_schema4:
  "ebind (result (draw_parameters_dwg (config_of tree4 True) [dwg_topology4] times4 sizes4 rng0))
     (\<lambda>models. dwg_to_yaml (config_of tree4 True) sizes4 times4 (hd models)) = Inr dwg_schema4"
  by (simp add: result_def config_of_def dwg_topology4_def
      topology4_def sizes4_def times4_def run_defs eval_nat_numeral writer_defs schema_defs
      del: uniform_size.simps draw_from_lows.simps)

text \<open>
  C4: for a schema with migration events the reader should give a complete batch of
  replicates, with the migration timing evaluated from the relations. Reading the
  secondary-contact record and the gene-flow record of the balanced tree draws the
  population sizes, the divergence times and the migration rates; the dict of the migration
  times stays empty (for the end time the names of the relation are split out and left
  there, the start time is not looked at), and the call returns nothing.
\<close>

theorem read_yaml_gives_no_migration_times:
  "map_option (map_sum id (\<lambda>(l, g). (divergence_time_draws l, migration_rates l,
       migration_times l, mintimes l))) (read_yaml_info 2 sc_schema4 rng0)
     = Some (Inr ([(''X'', [400, 400]), (''Y'', [100, 100]), (''root'', [1000, 1000])],
                  [(''Mig_A_B'', [0, 0])], [], Some [''Tdiv_X'', ''Tdiv_Y'', ''Tdiv_root'']))
   \<and> map_option (map_sum id (\<lambda>(l, g). (divergence_time_draws l, migration_rates l,
       migration_times l, mintimes l))) (read_yaml_info 2 dwg_schema4 rng0)
     = Some (Inr ([(''Y'', [100, 100]), (''X'', [400, 400]), (''root'', [1000, 1000])],
                  [(''Mig_A_B'', [0, 0])], [], None))
   \<and> read_yaml 2 [sc_schema4, dwg_schema4] rng0 = Some (Inr ())"
  by (simp add: reader_defs schema_defs run_defs eval_nat_numeral np_round_def rint_def
      del: uniform_size.simps draw_from_lows.simps)

section \<open>Divergence times respect the tree\<close>

lemma draw_divergence_times4:
  "draw_divergence_times (config_of tree4 True) size_draws4 topology4 times4 rng0
     = Inr (time_draws4, rng0)"
  by (simp add: config_of_def topology4_def times4_def size_draws4_def time_draws4_def
      run_defs eval_nat_numeral del: uniform_size.simps draw_from_lows.simps)

text \<open>
  C5: in the draws of \<open>_draw_divergence_times\<close>, for every split with a sampled time
  (its placeholder time is not 0) and every replicate, the time of the ancestral population
  is at least the time of each of its two derived populations and at most the upper bound
  of its prior. The ancestral names of the model are pairwise different, as the labels of
  the internal nodes of a tree are.
\<close>

theorem divergence_time_bounds:
  assumes "draw_divergence_times cfg pd model divergence_times g = Inr (dd, g')"
    and "distinct (ancestral_names (events model))"
    and "PopulationSplit t [d0, d1] a \<in> set (events model)"
    and "t \<noteq> Fin 0"
    and "rep < replicates cfg"
  shows "\<exists>ts t0 t1 lower upper.
           map_of dd a = Some ts \<and> map_of dd d0 = Some t0 \<and> map_of dd d1 = Some t1
           \<and> map_of divergence_times a = Some (lower, upper)
           \<and> t0 ! rep \<le> ts ! rep \<and> t1 ! rep \<le> ts ! rep \<and> ts ! rep \<le> of_int upper"
proof -
  let ?n = "replicates cfg"
  let ?zero = "zero_draws ?n (non_ancestral pd (events model))"
  from assms(1) have run:
    "draw_divergence_events ?n (events model) divergence_times ?zero g = Inr (dd, g')"
    by (simp add: draw_divergence_times_def)
  have fresh: "set (ancestral_names (events model)) \<inter> dom (map_of ?zero) = {}"
    by (auto simp: dom_def map_of_zero_draws non_ancestral_def split: if_splits)
  from draw_divergence_events_bounds [OF run assms(2) fresh int_draws_zero assms(3,4,5)]
  show ?thesis by blast
qed

theorem divergence_time_bounds_witness:
  "draw_divergence_times (config_of tree4 True) size_draws4 topology4 times4 rng0
     = Inr (time_draws4, rng0)
   \<and> distinct (ancestral_names (events topology4))
   \<and> PopulationSplit (Fin 1000) [''X'', ''Y''] ''root'' \<in> set (events topology4)
   \<and> Fin 1000 \<noteq> Fin 0
   \<and> (1 :: nat) < replicates (config_of tree4 True)
   \<and> (\<exists>ts t0 t1 lower upper.
           map_of time_draws4 ''root'' = Some ts \<and> map_of time_draws4 ''X'' = Some t0
           \<and> map_of time_draws4 ''Y'' = Some t1
           \<and> map_of times4 ''root'' = Some (lower, upper)
           \<and> t0 ! 1 \<le> ts ! 1 \<and> t1 ! 1 \<le> ts ! 1 \<and> ts ! 1 \<le> of_int upper)"
proof -
  have h2: "distinct (ancestral_names (events topology4))"
    by (simp add: topology4_def)
  have h3: "PopulationSplit (Fin 1000) [''X'', ''Y''] ''root'' \<in> set (events topology4)"
    by (simp add: topology4_def)
  have h4: "Fin 1000 \<noteq> Fin 0" by simp
  have h5: "(1 :: nat) < replicates (config_of tree4 True)"
    by (simp add: config_of_def)
  from divergence_time_bounds [OF draw_divergence_times4 h2 h3 h4 h5]
    draw_divergence_times4 h2 h3 h4 h5
  show ?thesis by blast
qed

section \<open>Migration stops in the secondary-contact replicates\<close>

text \<open>The replicates of \<open>_draw_parameters_sc\<close> are built model by model.\<close>

lemma draw_parameters_sc_cases:
  assumes "draw_parameters_sc cfg models divergence_times population_sizes g = Inr (out, g')"
    and "reps \<in> set out"
  shows "\<exists>m pd dd rd stops g1 g2.
           m \<in> set models
           \<and> draw_divergence_times cfg pd m divergence_times g1 = Inr (dd, g2)
           \<and> get_migration_stops cfg dd = Inr stops
           \<and> emap (sc_replicate cfg m pd dd rd stops) [0 ..< replicates cfg] = Inr reps"
  using assms
proof (induction models arbitrary: g out g')
  case Nil
  then show ?case by simp
next
  case (Cons m models)
  from Cons.prems(1) obtain pd ks g1 dd g2 rd g3 stops rs rest g4 where
    dd: "draw_divergence_times cfg pd m divergence_times g1 = Inr (dd, g2)" and
    stops: "get_migration_stops cfg dd = Inr stops" and
    rs: "emap (sc_replicate cfg m pd dd rd stops) [0 ..< replicates cfg] = Inr rs" and
    rest: "draw_parameters_sc cfg models divergence_times population_sizes g3 = Inr (rest, g4)" and
    out: "out = rs # rest"
    by (auto simp: ebind_Inr_iff)
  from Cons.prems(2) out consider "reps = rs" | "reps \<in> set rest" by auto
  then show ?case
  proof cases
    case 1
    have "m \<in> set (m # models)" by simp
    with dd stops rs 1 show ?thesis by blast
  next
    case 2
    from Cons.IH [OF rest 2] obtain m' pd' dd' rd' stops' g1' g2' where
      "m' \<in> set models"
      "draw_divergence_times cfg pd' m' divergence_times g1' = Inr (dd', g2')"
      "get_migration_stops cfg dd' = Inr stops'"
      "emap (sc_replicate cfg m' pd' dd' rd' stops') [0 ..< replicates cfg] = Inr reps"
      by blast
    moreover from this(1) have "m' \<in> set (m # models)" by simp
    ultimately show ?thesis by blast
  qed
qed

text \<open>
  C7: in every replicate that \<open>_draw_parameters_sc\<close> returns, every migration event has
  the same time, the ceiling of half the smallest non-zero divergence time of that
  replicate (\<open>np.inf\<close> when no divergence time of the replicate is non-zero).
\<close>

theorem sc_migration_stop:
  assumes "draw_parameters_sc cfg models divergence_times population_sizes g = Inr (out, g')"
    and "reps \<in> set out"
    and "r \<in> set reps"
    and "e \<in> set (events r)"
    and "has_rate e"
  shows "event_time e = half_min_stop r"
proof -
  from draw_parameters_sc_cases [OF assms(1,2)] obtain m pd dd rd stops g1 g2 where
    dd: "draw_divergence_times cfg pd m divergence_times g1 = Inr (dd, g2)" and
    stops: "get_migration_stops cfg dd = Inr stops" and
    rs: "emap (sc_replicate cfg m pd dd rd stops) [0 ..< replicates cfg] = Inr reps"
    by blast
  from emap_set [OF rs assms(3)] obtain rep where
    rep: "rep < replicates cfg" and r: "sc_replicate cfg m pd dd rd stops rep = Inr r"
    by auto
  from emap_set [OF sc_replicate_events [OF r] assms(4)] obtain e0 where
    "sc_set_time dd stops rep e0 = Inr e" by blast
  from sc_set_time_rate [OF this assms(5)] have "event_time e = stops ! rep" by simp
  also have "\<dots> = (if positive_draws rep dd = {} then PosInf
                    else Fin (of_int \<lceil>Min (positive_draws rep dd) / 2\<rceil>))"
    by (rule get_migration_stops_nth(2) [OF stops rep])
  also have "\<dots> = half_min_stop r"
    by (simp add: half_min_stop_def sc_replicate_times [OF dd r rep])
  finally show ?thesis .
qed

lemma draw_parameters_sc4:
  "draw_parameters_sc (config_of tree4 True) [sc_topology4] times4 sizes4 rng0
     = Inr ([[sc_replicate4, sc_replicate4]], rng0)"
  by (simp add: config_of_def sc_replicate4_def sc_topology4_def
      topology4_def sizes4_def times4_def run_defs eval_nat_numeral np_round_def rint_def
      del: uniform_size.simps draw_from_lows.simps)

theorem sc_migration_stop_witness:
  "draw_parameters_sc (config_of tree4 True) [sc_topology4] times4 sizes4 rng0
     = Inr ([[sc_replicate4, sc_replicate4]], rng0)
   \<and> [sc_replicate4, sc_replicate4] \<in> set [[sc_replicate4, sc_replicate4]]
   \<and> sc_replicate4 \<in> set [sc_replicate4, sc_replicate4]
   \<and> SymmetricMigrationRateChange (Fin 50) [''A'', ''B''] 0 \<in> set (events sc_replicate4)
   \<and> has_rate (SymmetricMigrationRateChange (Fin 50) [''A'', ''B''] 0)
   \<and> event_time (SymmetricMigrationRateChange (Fin 50) [''A'', ''B''] 0)
       = half_min_stop sc_replicate4
   \<and> half_min_stop sc_replicate4 = Fin 50"
proof -
  have h2: "[sc_replicate4, sc_replicate4] \<in> set [[sc_replicate4, sc_replicate4]]" by simp
  have h3: "sc_replicate4 \<in> set [sc_replicate4, sc_replicate4]" by simp
  have h4: "SymmetricMigrationRateChange (Fin 50) [''A'', ''B''] 0 \<in> set (events sc_replicate4)"
    by (simp add: sc_replicate4_def)
  have h5: "has_rate (SymmetricMigrationRateChange (Fin 50) [''A'', ''B''] 0)" by simp
  from sc_migration_stop [OF draw_parameters_sc4 h2 h3 h4 h5]
  have "event_time (SymmetricMigrationRateChange (Fin 50) [''A'', ''B''] 0)
          = half_min_stop sc_replicate4" .
  with draw_parameters_sc4 h2 h3 h4 h5 show ?thesis by simp
qed

section \<open>Facts about the migration starts\<close>

lemma daughters_pair_of: "daughters symm e = Inr (d1, d2) \<Longrightarrow> pair_of e = [d1, d2]"
  by (cases e) (auto split: if_splits list.splits)

lemma daughters_has_rate: "daughters symm e = Inr p \<Longrightarrow> has_rate e"
  by (cases e) auto

lemma migration_key_daughters:
  "daughters symm e = Inr (d1, d2) \<Longrightarrow>
     migration_key symm ks e = ebind (lookup ks d1) (\<lambda>k0. ebind (lookup ks d2) (\<lambda>k1. Inr (k0, k1)))"
  by (cases e) (auto simp: at_index_def ebind_simps split: if_splits list.splits)

lemma find_ancestor_found:
  "list_ex (is_split_of [d1, d2]) es \<Longrightarrow>
     \<exists>a. find_ancestor d1 d2 es anc = Some a \<and> find_ancestor d1 d2 es None = Some a
        \<and> (\<exists>t d. PopulationSplit t d a \<in> set es \<and> d1 \<in> set d \<and> d2 \<in> set d)"
proof (induction es arbitrary: anc rule: rev_induct)
  case Nil
  then show ?case by simp
next
  case (snoc e es)
  have app: "\<And>anc. find_ancestor d1 d2 (es @ [e]) anc = find_ancestor d1 d2 [e] (find_ancestor d1 d2 es anc)"
  proof -
    fix anc show "find_ancestor d1 d2 (es @ [e]) anc = find_ancestor d1 d2 [e] (find_ancestor d1 d2 es anc)"
      by (induction d1 d2 es anc rule: find_ancestor.induct) simp_all
  qed
  show ?case
  proof (cases "is_split_of [d1, d2] e")
    case True
    then obtain t d a where e: "e = PopulationSplit t d a" "d1 \<in> set d" "d2 \<in> set d"
      by (cases e) auto
    have "find_ancestor d1 d2 (es @ [e]) x = Some a" for x
      unfolding app using e by simp
    moreover have "PopulationSplit t d a \<in> set (es @ [e])" using e by simp
    ultimately show ?thesis using e(2,3) by blast
  next
    case False
    with snoc.prems have ex: "list_ex (is_split_of [d1, d2]) es" by simp
    from snoc.IH [OF ex, of anc] obtain a where
      a: "find_ancestor d1 d2 es anc = Some a" "find_ancestor d1 d2 es None = Some a"
         "\<exists>t d. PopulationSplit t d a \<in> set es \<and> d1 \<in> set d \<and> d2 \<in> set d"
      by blast
    from False have "\<And>x. find_ancestor d1 d2 [e] x = x"
      by (cases e) auto
    with a have "find_ancestor d1 d2 (es @ [e]) anc = Some a"
      "find_ancestor d1 d2 (es @ [e]) None = Some a"
      unfolding app by simp_all
    moreover from a(3) have "\<exists>t d. PopulationSplit t d a \<in> set (es @ [e]) \<and> d1 \<in> set d \<and> d2 \<in> set d"
      by auto
    ultimately show ?thesis by blast
  qed
qed


lemma migration_start_event_facts:
  assumes "migration_start_event symm es dd ks rep e st = Inr st'"
    and "list_ex (is_split_of (pair_of e)) es"
  shows "\<exists>d1 d2 a ta t1 t2 k1 k2.
           daughters symm e = Inr (d1, d2) \<and> find_ancestor d1 d2 es None = Some a
           \<and> (\<exists>t d. PopulationSplit t d a \<in> set es \<and> d1 \<in> set d \<and> d2 \<in> set d)
           \<and> map_of dd a = Some ta \<and> rep < length ta
           \<and> map_of dd d1 = Some t1 \<and> rep < length t1
           \<and> map_of dd d2 = Some t2 \<and> rep < length t2
           \<and> map_of ks d1 = Some k1 \<and> map_of ks d2 = Some k2
           \<and> fst st' = AList.update (k1, k2)
                 (the_list (map_of (fst st) (k1, k2)) @ [startime (ta ! rep) (t1 ! rep) (t2 ! rep)])
                 (fst st)"
proof -
  from assms(1) obtain d1 d2 where d: "daughters symm e = Inr (d1, d2)"
    by (auto simp: migration_start_event_def ebind_Inr_iff)
  from d have p: "pair_of e = [d1, d2]" by (rule daughters_pair_of)
  from find_ancestor_found [OF assms(2) [unfolded p], of "snd st"] obtain a where
    a: "find_ancestor d1 d2 es (snd st) = Some a" "find_ancestor d1 d2 es None = Some a"
       "\<exists>t d. PopulationSplit t d a \<in> set es \<and> d1 \<in> set d \<and> d2 \<in> set d"
    by blast
  from assms(1) d a(1) obtain ta t1 t2 k1 k2 where
    "map_of dd a = Some ta" "rep < length ta" "map_of dd d1 = Some t1" "rep < length t1"
    "map_of dd d2 = Some t2" "rep < length t2" "map_of ks d1 = Some k1" "map_of ks d2 = Some k2"
    "fst st' = AList.update (k1, k2)
                 (the_list (map_of (fst st) (k1, k2)) @ [startime (ta ! rep) (t1 ! rep) (t2 ! rep)])
                 (fst st)"
    by (auto simp: migration_start_event_def ebind_Inr_iff lookup_Inr_iff at_index_Inr_iff
        the_list_def)
  with d a(2,3) show ?thesis by blast
qed

lemma migration_start_event_step:
  assumes "migration_start_event symm es dd ks rep e st = Inr st'"
    and "list_ex (is_split_of (pair_of e)) es"
  shows "\<exists>ke. event_key ks e = Some ke
           \<and> fst st' = AList.update ke (the_list (map_of (fst st) ke) @ [start_value es dd rep e])
                          (fst st)"
proof -
  from migration_start_event_facts [OF assms] obtain d1 d2 a ta t1 t2 k1 k2 where
    f: "daughters symm e = Inr (d1, d2)" "find_ancestor d1 d2 es None = Some a"
       "map_of dd a = Some ta" "map_of dd d1 = Some t1" "map_of dd d2 = Some t2"
       "map_of ks d1 = Some k1" "map_of ks d2 = Some k2"
       "fst st' = AList.update (k1, k2)
                 (the_list (map_of (fst st) (k1, k2)) @ [startime (ta ! rep) (t1 ! rep) (t2 ! rep)])
                 (fst st)"
    by blast
  from f(1) have p: "pair_of e = [d1, d2]" by (rule daughters_pair_of)
  have "event_key ks e = Some (k1, k2)" by (simp add: event_key_def p f)
  moreover have "start_value es dd rep e = startime (ta ! rep) (t1 ! rep) (t2 ! rep)"
    by (simp add: start_value_def p f draw_at_def)
  ultimately show ?thesis using f(8) by simp
qed

lemma event_key_inj:
  assumes "inj_keys ks" "event_key ks e = Some k" "event_key ks e' = Some k"
  shows "pair_of e = pair_of e'"
proof -
  from assms(2) obtain d1 d2 where p: "pair_of e = [d1, d2]"
    and k: "map_of ks d1 = Some (fst k)" "map_of ks d2 = Some (snd k)"
    by (auto simp: event_key_def split: list.splits option.splits)
  from assms(3) obtain d1' d2' where p': "pair_of e' = [d1', d2']"
    and k': "map_of ks d1' = Some (fst k)" "map_of ks d2' = Some (snd k)"
    by (auto simp: event_key_def split: list.splits option.splits)
  from assms(1) k k' have "d1 = d1'" "d2 = d2'" by (auto simp: inj_keys_def)
  with p p' show ?thesis by simp
qed

lemma migration_start_events_map:
  assumes "migration_start_events symm all dd ks rep es st = Inr st'"
    and "\<forall>e \<in> set es. has_rate e \<longrightarrow> list_ex (is_split_of (pair_of e)) all"
    and "distinct (map pair_of (filter has_rate es))"
    and "inj_keys ks"
  shows "the_list (map_of (fst st') k) =
           the_list (map_of (fst st) k)
           @ (case find (\<lambda>e. has_rate e \<and> event_key ks e = Some k) es of
                Some e \<Rightarrow> [start_value all dd rep e] | None \<Rightarrow> [])"
  using assms(1,2,3)
proof (induction es arbitrary: st)
  case Nil
  then show ?case by simp
next
  case (Cons e es)
  show ?case
  proof (cases "has_rate e")
    case False
    with Cons.prems have
      "migration_start_events symm all dd ks rep es st = Inr st'"
      "\<forall>e \<in> set es. has_rate e \<longrightarrow> list_ex (is_split_of (pair_of e)) all"
      "distinct (map pair_of (filter has_rate es))"
      by simp_all
    from Cons.IH [OF this] False show ?thesis by simp
  next
    case True
    with Cons.prems(1) obtain st1 where
      st1: "migration_start_event symm all dd ks rep e st = Inr st1" and
      rest: "migration_start_events symm all dd ks rep es st1 = Inr st'"
      by (auto simp: ebind_Inr_iff)
    from Cons.prems(2) True have ex: "list_ex (is_split_of (pair_of e)) all" by simp
    from migration_start_event_step [OF st1 ex] obtain ke where
      ke: "event_key ks e = Some ke" and
      upd: "fst st1 = AList.update ke (the_list (map_of (fst st) ke) @ [start_value all dd rep e])
                        (fst st)"
      by blast
    from Cons.prems(2,3) True have
      h2: "\<forall>e \<in> set es. has_rate e \<longrightarrow> list_ex (is_split_of (pair_of e)) all" and
      h3: "distinct (map pair_of (filter has_rate es))" and
      new: "pair_of e \<notin> pair_of ` set (filter has_rate es)"
      by simp_all
    note IH = Cons.IH [OF rest h2 h3]
    show ?thesis
    proof (cases "k = ke")
      case True
      have "find (\<lambda>e. has_rate e \<and> event_key ks e = Some k) es = None"
      proof (rule ccontr)
        assume "find (\<lambda>e. has_rate e \<and> event_key ks e = Some k) es \<noteq> None"
        then obtain e' where "e' \<in> set es" "has_rate e'" "event_key ks e' = Some k"
          by (auto simp: find_None_iff)
        with event_key_inj [OF assms(4) ke [folded True] this(3)] new show False by auto
      qed
      with IH True ke \<open>has_rate e\<close> show ?thesis
        by (simp add: upd update_conv' the_list_def)
    next
      case False
      with IH ke \<open>has_rate e\<close> show ?thesis
        by (simp add: upd update_conv')
    qed
  qed
qed


lemma migration_start_reps_map:
  assumes "migration_start_reps symm all dd ks reps st = Inr st'"
    and "\<forall>e \<in> set all. has_rate e \<longrightarrow> list_ex (is_split_of (pair_of e)) all"
    and "distinct (map pair_of (filter has_rate all))"
    and "inj_keys ks"
  shows "the_list (map_of (fst st') k) =
           the_list (map_of (fst st) k)
           @ (case find (\<lambda>e. has_rate e \<and> event_key ks e = Some k) all of
                Some e \<Rightarrow> map (\<lambda>rep. start_value all dd rep e) reps | None \<Rightarrow> [])"
  using assms(1)
proof (induction reps arbitrary: st)
  case Nil
  then show ?case by (simp split: option.splits)
next
  case (Cons rep reps)
  from Cons.prems obtain st1 where
    st1: "migration_start_events symm all dd ks rep all st = Inr st1" and
    rest: "migration_start_reps symm all dd ks reps st1 = Inr st'"
    by (auto simp: ebind_Inr_iff)
  from migration_start_events_map [OF st1 assms(2,3,4), of k] Cons.IH [OF rest]
  show ?case by (simp split: option.splits)
qed

lemma get_migration_starts_nth:
  assumes "get_migration_starts cfg m dd ks = Inr starts"
    and "gene_flow_model m" and "inj_keys ks"
    and "e \<in> set (events m)" "has_rate e" "event_key ks e = Some k"
    and "map_of starts k = Some l" "rep < replicates cfg"
  shows "rep < length l \<and> l ! rep = start_value (events m) dd rep e"
proof -
  from assms(1) obtain st' where
    run: "migration_start_reps (symmetric cfg) (events m) dd ks [0 ..< replicates cfg] ([], None)
            = Inr st'" and starts: "starts = fst st'"
    by (auto simp: get_migration_starts_def ebind_Inr_iff)
  from assms(2) have h2: "\<forall>e \<in> set (events m). has_rate e \<longrightarrow>
      list_ex (is_split_of (pair_of e)) (events m)"
    and h3: "distinct (map pair_of (filter has_rate (events m)))"
    by (simp_all add: gene_flow_model_def)
  from assms(4,5,6) obtain e' where
    f: "find (\<lambda>e. has_rate e \<and> event_key ks e = Some k) (events m) = Some e'"
    by (cases "find (\<lambda>e. has_rate e \<and> event_key ks e = Some k) (events m)")
       (auto simp: find_None_iff)
  then have e': "e' \<in> set (events m)" "has_rate e'" "event_key ks e' = Some k"
    by (auto simp: find_Some_iff)
  have pe: "pair_of e' = pair_of e"
    by (rule event_key_inj [OF assms(3) e'(3) assms(6)])
  have sv: "start_value (events m) dd rep e' = start_value (events m) dd rep e" for rep
    by (simp add: start_value_def pe)
  from migration_start_reps_map [OF run h2 h3 assms(3), of k] f assms(7) starts
  have "l = map (\<lambda>rep. start_value (events m) dd rep e') [0 ..< replicates cfg]"
    by (simp add: the_list_def)
  with assms(8) sv show ?thesis by simp
qed

text \<open>No two names share an index in \<open>population_size_keys\<close>.\<close>

lemma draw_population_sizes_loop_inj:
  assumes "draw_population_sizes_loop n index ps pri ds ks g = Inr (ds', ks', g')"
    and "inj_keys ks" and "\<forall>x i. map_of ks x = Some i \<longrightarrow> i < index"
  shows "inj_keys ks'"
  using assms
proof (induction ps arbitrary: index ds ks g)
  case Nil
  then show ?case by simp
next
  case (Cons p ps)
  from Cons.prems(1) obtain xs g1 where
    rest: "draw_population_sizes_loop n (Suc index) ps pri
             (AList.update (name p) (map (\<lambda>x. np_round x 0) xs) ds)
             (AList.update (name p) index ks) g1 = Inr (ds', ks', g')"
    by (auto simp: ebind_Inr_iff)
  have inj: "inj_keys (AList.update (name p) index ks)"
    using Cons.prems(2,3) by (auto simp: inj_keys_def update_conv' split: if_splits)
  have bound: "\<forall>x i. map_of (AList.update (name p) index ks) x = Some i \<longrightarrow> i < Suc index"
    using Cons.prems(3) by (auto simp: update_conv' less_Suc_eq split: if_splits)
  from Cons.IH [OF rest inj bound] show ?case .
qed

lemma draw_population_sizes_inj:
  "draw_population_sizes cfg m pri g = Inr (pd, ks, g') \<Longrightarrow> inj_keys ks"
  unfolding draw_population_sizes_def
  by (erule draw_population_sizes_loop_inj) (simp_all add: inj_keys_def)


lemma migration_start_events_each:
  assumes "migration_start_events symm all dd ks rep es st = Inr st'"
    and "e \<in> set es" "has_rate e"
  shows "\<exists>st1 st2. migration_start_event symm all dd ks rep e st1 = Inr st2"
  using assms
proof (induction es arbitrary: st)
  case Nil
  then show ?case by simp
next
  case (Cons x es)
  show ?case
  proof (cases "has_rate x")
    case True
    with Cons.prems(1) obtain st1 where
      st1: "migration_start_event symm all dd ks rep x st = Inr st1" and
      rest: "migration_start_events symm all dd ks rep es st1 = Inr st'"
      by (auto simp: ebind_Inr_iff)
    show ?thesis
    proof (cases "e = x")
      case True
      with st1 show ?thesis by blast
    next
      case False
      with Cons.prems(2) have "e \<in> set es" by simp
      from Cons.IH [OF rest this Cons.prems(3)] show ?thesis .
    qed
  next
    case False
    with Cons.prems have "migration_start_events symm all dd ks rep es st = Inr st'" "e \<in> set es"
      by auto
    from Cons.IH [OF this Cons.prems(3)] show ?thesis .
  qed
qed

lemma migration_start_reps_each:
  assumes "migration_start_reps symm all dd ks reps st = Inr st'"
    and "rep \<in> set reps" "e \<in> set all" "has_rate e"
  shows "\<exists>st1 st2. migration_start_event symm all dd ks rep e st1 = Inr st2"
  using assms(1,2)
proof (induction reps arbitrary: st)
  case Nil
  then show ?case by simp
next
  case (Cons x reps)
  from Cons.prems(1) obtain st1 where
    st1: "migration_start_events symm all dd ks x all st = Inr st1" and
    rest: "migration_start_reps symm all dd ks reps st1 = Inr st'"
    by (auto simp: ebind_Inr_iff)
  show ?case
  proof (cases "rep = x")
    case True
    from migration_start_events_each [OF st1 assms(3,4)] True show ?thesis by simp
  next
    case False
    with Cons.prems(2) have "rep \<in> set reps" by simp
    from Cons.IH [OF rest this] show ?thesis .
  qed
qed

lemma get_migration_starts_each:
  assumes "get_migration_starts cfg m dd ks = Inr starts"
    and "rep < replicates cfg" "e \<in> set (events m)" "has_rate e"
  shows "\<exists>st1 st2. migration_start_event (symmetric cfg) (events m) dd ks rep e st1 = Inr st2"
proof -
  from assms(1) obtain st' where
    run: "migration_start_reps (symmetric cfg) (events m) dd ks [0 ..< replicates cfg] ([], None)
            = Inr st'"
    by (auto simp: get_migration_starts_def ebind_Inr_iff)
  from assms(2) have "rep \<in> set [0 ..< replicates cfg]" by simp
  from migration_start_reps_each [OF run this assms(3,4)] show ?thesis .
qed

text \<open>The events of a gene-flow replicate.\<close>

lemma dwg_replicate_events:
  "dwg_replicate cfg m ks pd dd rd starts rep = Inr r \<Longrightarrow>
     \<exists>es. emap (dwg_set_event (symmetric cfg) ks dd starts rd rep) (events m) = Inr es
          \<and> set (events r) = set es"
  by (auto simp: dwg_replicate_def ebind_Inr_iff sort_events_def)

lemma dwg_set_event_of_split:
  "dwg_set_event symm ks dd starts rd rep (PopulationSplit t0 d a) = Inr e \<Longrightarrow>
     \<exists>ts. map_of dd a = Some ts \<and> rep < length ts \<and> e = PopulationSplit (Fin (ts ! rep)) d a"
  by (auto simp: dwg_set_event_def ebind_Inr_iff lookup_Inr_iff at_index_Inr_iff)

lemma dwg_set_event_split:
  "dwg_set_event symm ks dd starts rd rep e0 = Inr (PopulationSplit t d a) \<Longrightarrow>
     \<exists>t0. e0 = PopulationSplit t0 d a"
  by (cases e0) (auto simp: dwg_set_event_def ebind_Inr_iff)

lemma dwg_set_event_rate:
  assumes "dwg_set_event symm ks dd starts rd rep e0 = Inr e" "has_rate e"
  shows "has_rate e0 \<and> pair_of e = pair_of e0
         \<and> (\<exists>key ss. migration_key symm ks e0 = Inr key \<and> map_of starts key = Some ss
                \<and> rep < length ss \<and> event_time e = Fin (ss ! rep))"
  using assms
  by (cases e0)
    (auto simp: dwg_set_event_def ebind_Inr_iff lookup_Inr_iff at_index_Inr_iff
       split: if_splits)

lemma dd_time_in_replicate:
  assumes dd: "draw_divergence_times cfg pd m divergence_times g = Inr (dd, g')"
    and es: "emap (dwg_set_event symm ks dd starts rd rep) (events m) = Inr es"
    and r: "set (events r) = set es"
    and x: "map_of dd x = Some ts" and rep: "rep < replicates cfg"
  shows "has_divergence_time r x (ts ! rep)"
proof (cases "x \<in> set (ancestral_names (events m))")
  case True
  then obtain t0 d where e0: "PopulationSplit t0 d x \<in> set (events m)"
    by (auto simp: ancestral_names_iff)
  from emap_image [OF es e0] obtain e where
    e: "e \<in> set es" "dwg_set_event symm ks dd starts rd rep (PopulationSplit t0 d x) = Inr e"
    by blast
  from dwg_set_event_of_split [OF e(2)] x have "e = PopulationSplit (Fin (ts ! rep)) d x"
    by auto
  with e(1) r show ?thesis by (auto simp: has_divergence_time_def)
next
  case False
  from x have "(x, ts) \<in> set dd" by (rule map_of_SomeD)
  from draw_divergence_times_facts(3) [OF dd this False] rep have z: "ts ! rep = 0" by simp
  have "x \<notin> set (ancestral_names (events r))"
  proof
    assume "x \<in> set (ancestral_names (events r))"
    then obtain t d where "PopulationSplit t d x \<in> set es"
      using r by (auto simp: ancestral_names_iff)
    from emap_set [OF es this] obtain e0 where
      e0: "e0 \<in> set (events m)" "dwg_set_event symm ks dd starts rd rep e0 = Inr (PopulationSplit t d x)"
      by blast
    from dwg_set_event_split [OF e0(2)] e0(1) have "x \<in> set (ancestral_names (events m))"
      by (auto simp: ancestral_names_iff)
    with False show False by simp
  qed
  with z show ?thesis by (simp add: has_divergence_time_def)
qed

section \<open>Migration starts in the gene-flow replicates\<close>

text \<open>The replicates of \<open>_draw_parameters_dwg\<close> are built model by model.\<close>

lemma draw_parameters_dwg_cases:
  assumes "draw_parameters_dwg cfg models divergence_times population_sizes g = Inr (out, g')"
    and "reps \<in> set out"
  shows "\<exists>m pd ks dd rd starts g0 g1 g2 g3.
           m \<in> set models
           \<and> draw_population_sizes cfg m population_sizes g0 = Inr (pd, ks, g1)
           \<and> draw_divergence_times cfg pd m divergence_times g2 = Inr (dd, g3)
           \<and> get_migration_starts cfg m dd ks = Inr starts
           \<and> emap (dwg_replicate cfg m ks pd dd rd starts) [0 ..< replicates cfg] = Inr reps"
  using assms
proof (induction models arbitrary: g out g')
  case Nil
  then show ?case by simp
next
  case (Cons m models)
  from Cons.prems(1) obtain pd ks g1 dd g2 rd g3 starts rs rest g4 where
    ps: "draw_population_sizes cfg m population_sizes g = Inr (pd, ks, g1)" and
    dd: "draw_divergence_times cfg pd m divergence_times g1 = Inr (dd, g2)" and
    starts: "get_migration_starts cfg m dd ks = Inr starts" and
    rs: "emap (dwg_replicate cfg m ks pd dd rd starts) [0 ..< replicates cfg] = Inr rs" and
    rest: "draw_parameters_dwg cfg models divergence_times population_sizes g3 = Inr (rest, g4)" and
    out: "out = rs # rest"
    by (auto simp: ebind_Inr_iff)
  from Cons.prems(2) out consider "reps = rs" | "reps \<in> set rest" by auto
  then show ?case
  proof cases
    case 1
    have "m \<in> set (m # models)" by simp
    with ps dd starts rs 1 show ?thesis by blast
  next
    case 2
    from Cons.IH [OF rest 2] obtain m' pd' ks' dd' rd' starts' g0' g1' g2' g3' where
      "m' \<in> set models"
      "draw_population_sizes cfg m' population_sizes g0' = Inr (pd', ks', g1')"
      "draw_divergence_times cfg pd' m' divergence_times g2' = Inr (dd', g3')"
      "get_migration_starts cfg m' dd' ks' = Inr starts'"
      "emap (dwg_replicate cfg m' ks' pd' dd' rd' starts') [0 ..< replicates cfg] = Inr reps"
      by blast
    moreover from this(1) have "m' \<in> set (m # models)" by simp
    ultimately show ?thesis by blast
  qed
qed

text \<open>
  C8: in every replicate that \<open>_draw_parameters_dwg\<close> returns, the time of a migration
  event between the daughters d1 and d2 is
  \<open>((ta - max t1 t2) / 2) + max t1 t2\<close>, where ta is the time of a split of the
  replicate that has both daughters among its derived populations and t1, t2 are the
  divergence times of the daughters in the replicate. The models are those of the
  gene-flow category: one migration event for a pair of populations, and a split for
  every pair. With the ancestor at 1000 and both daughters at 0 the start time is 500.
\<close>

theorem gene_flow_start_time:
  assumes "draw_parameters_dwg cfg models divergence_times population_sizes g = Inr (out, g')"
    and "\<forall>m \<in> set models. gene_flow_model m"
    and "reps \<in> set out"
    and "r \<in> set reps"
    and "e \<in> set (events r)"
    and "has_rate e"
  shows "\<exists>d1 d2 d a ta t1 t2.
           pair_of e = [d1, d2]
           \<and> PopulationSplit (Fin ta) d a \<in> set (events r) \<and> d1 \<in> set d \<and> d2 \<in> set d
           \<and> has_divergence_time r d1 t1 \<and> has_divergence_time r d2 t2
           \<and> event_time e = Fin (((ta - max t1 t2) / 2) + max t1 t2)"
proof -
  let ?symm = "symmetric cfg"
  from draw_parameters_dwg_cases [OF assms(1,3)] obtain m pd ks dd rd starts g0 g1 g2 g3 where
    m: "m \<in> set models" and
    ps: "draw_population_sizes cfg m population_sizes g0 = Inr (pd, ks, g1)" and
    dd: "draw_divergence_times cfg pd m divergence_times g2 = Inr (dd, g3)" and
    starts: "get_migration_starts cfg m dd ks = Inr starts" and
    rs: "emap (dwg_replicate cfg m ks pd dd rd starts) [0 ..< replicates cfg] = Inr reps"
    by blast
  from m assms(2) have gf: "gene_flow_model m" by simp
  note inj = draw_population_sizes_inj [OF ps]
  from emap_set [OF rs assms(4)] obtain rep where
    rep: "rep < replicates cfg" and r: "dwg_replicate cfg m ks pd dd rd starts rep = Inr r"
    by auto
  from dwg_replicate_events [OF r] obtain es where
    es: "emap (dwg_set_event ?symm ks dd starts rd rep) (events m) = Inr es" and
    set_r: "set (events r) = set es"
    by blast
  from assms(5) set_r have "e \<in> set es" by simp
  from emap_set [OF es this] obtain e0 where
    e0: "e0 \<in> set (events m)" "dwg_set_event ?symm ks dd starts rd rep e0 = Inr e"
    by blast
  from dwg_set_event_rate [OF e0(2) assms(6)] obtain key ss where
    rate0: "has_rate e0" and pair: "pair_of e = pair_of e0" and
    key: "migration_key ?symm ks e0 = Inr key" and
    ss: "map_of starts key = Some ss" "event_time e = Fin (ss ! rep)"
    by blast
  from gf e0(1) rate0 have ex: "list_ex (is_split_of (pair_of e0)) (events m)"
    by (simp add: gene_flow_model_def)
  from get_migration_starts_each [OF starts rep e0(1) rate0] obtain st1 st2 where
    "migration_start_event ?symm (events m) dd ks rep e0 st1 = Inr st2" by blast
  from migration_start_event_facts [OF this ex] obtain d1 d2 a ta t1 t2 k1 k2 t d where
    f: "daughters ?symm e0 = Inr (d1, d2)" "find_ancestor d1 d2 (events m) None = Some a"
       "PopulationSplit t d a \<in> set (events m)" "d1 \<in> set d" "d2 \<in> set d"
       "map_of dd a = Some ta" "map_of dd d1 = Some t1" "map_of dd d2 = Some t2"
       "map_of ks d1 = Some k1" "map_of ks d2 = Some k2"
    by blast
  from f(1) have p0: "pair_of e0 = [d1, d2]" by (rule daughters_pair_of)
  from key f(9,10) have "key = (k1, k2)"
    by (simp add: migration_key_daughters [OF f(1)] lookup_def ebind_simps)
  moreover have "event_key ks e0 = Some (k1, k2)"
    by (simp add: event_key_def p0 f)
  ultimately have ek: "event_key ks e0 = Some key" by simp
  from get_migration_starts_nth [OF starts gf inj e0(1) rate0 ek ss(1) rep]
  have "ss ! rep = start_value (events m) dd rep e0" by simp
  also have "\<dots> = startime (ta ! rep) (t1 ! rep) (t2 ! rep)"
    by (simp add: start_value_def p0 f draw_at_def)
  finally have time: "event_time e
      = Fin (((ta ! rep - max (t1 ! rep) (t2 ! rep)) / 2) + max (t1 ! rep) (t2 ! rep))"
    using ss(2) by (simp add: startime_def)
  from emap_image [OF es f(3)] obtain ea where
    ea: "ea \<in> set es" "dwg_set_event ?symm ks dd starts rd rep (PopulationSplit t d a) = Inr ea"
    by blast
  from dwg_set_event_of_split [OF ea(2)] f(6) have "ea = PopulationSplit (Fin (ta ! rep)) d a"
    by auto
  with ea(1) set_r have anc: "PopulationSplit (Fin (ta ! rep)) d a \<in> set (events r)" by simp
  have h1: "has_divergence_time r d1 (t1 ! rep)"
    by (rule dd_time_in_replicate [OF dd es set_r f(7) rep])
  have h2: "has_divergence_time r d2 (t2 ! rep)"
    by (rule dd_time_in_replicate [OF dd es set_r f(8) rep])
  from pair p0 have "pair_of e = [d1, d2]" by simp
  with anc f(4,5) h1 h2 time show ?thesis by blast
qed

text \<open>
  The tree ((A,B)X,C)root with symmetric migration between C and X: the two gene-flow
  topologies that \<open>build_models\<close> stores, and their replicates when every draw is its
  lower bound.
\<close>

lemma build_models_CX:
  "map_sum id dwg_demographies (build_models config_CX) = Inr [dwg_collapsed3, dwg_topology3]"
  by code_simp

lemma draw_parameters_dwg_CX:
  "draw_parameters_dwg config_CX [dwg_collapsed3, dwg_topology3] times3 sizes3 rng0
     = Inr ([[dwg_replicate3_collapsed, dwg_replicate3_collapsed],
             [dwg_replicate3, dwg_replicate3]], rng0)"
  by (simp add: config_CX_def config_of_def dwg_collapsed3_def dwg_topology3_def collapsed3_def
      topology3_def dwg_replicate3_collapsed_def dwg_replicate3_def sizes3_def times3_def
      run_defs eval_nat_numeral np_round_def rint_def
      del: uniform_size.simps draw_from_lows.simps)

theorem gene_flow_start_time_witness:
  "map_sum id dwg_demographies (build_models config_CX) = Inr [dwg_collapsed3, dwg_topology3]
   \<and> draw_parameters_dwg config_CX [dwg_collapsed3, dwg_topology3] times3 sizes3 rng0
     = Inr ([[dwg_replicate3_collapsed, dwg_replicate3_collapsed],
             [dwg_replicate3, dwg_replicate3]], rng0)
   \<and> list_all gene_flow_model [dwg_collapsed3, dwg_topology3]
   \<and> SymmetricMigrationRateChange (Fin 700) [''C'', ''X''] 0 \<in> set (events dwg_replicate3)
   \<and> has_rate (SymmetricMigrationRateChange (Fin 700) [''C'', ''X''] 0)
   \<and> (\<exists>d1 d2 d a ta t1 t2.
         pair_of (SymmetricMigrationRateChange (Fin 700) [''C'', ''X''] 0) = [d1, d2]
         \<and> PopulationSplit (Fin ta) d a \<in> set (events dwg_replicate3)
         \<and> d1 \<in> set d \<and> d2 \<in> set d
         \<and> has_divergence_time dwg_replicate3 d1 t1
         \<and> has_divergence_time dwg_replicate3 d2 t2
         \<and> event_time (SymmetricMigrationRateChange (Fin 700) [''C'', ''X''] 0)
             = Fin (((ta - max t1 t2) / 2) + max t1 t2))
   \<and> PopulationSplit (Fin 1000) [''X'', ''C''] ''root'' \<in> set (events dwg_replicate3)
   \<and> has_divergence_time dwg_replicate3 ''C'' 0
   \<and> has_divergence_time dwg_replicate3 ''X'' 400
   \<and> ((1000 - max 0 400) / 2) + max 0 400 = (700 :: rat)
   \<and> SymmetricMigrationRateChange (Fin 500) [''C'', ''X''] 0
       \<in> set (events dwg_replicate3_collapsed)
   \<and> (\<exists>d1 d2 d a ta t1 t2.
         pair_of (SymmetricMigrationRateChange (Fin 500) [''C'', ''X''] 0) = [d1, d2]
         \<and> PopulationSplit (Fin ta) d a \<in> set (events dwg_replicate3_collapsed)
         \<and> d1 \<in> set d \<and> d2 \<in> set d
         \<and> has_divergence_time dwg_replicate3_collapsed d1 t1
         \<and> has_divergence_time dwg_replicate3_collapsed d2 t2
         \<and> event_time (SymmetricMigrationRateChange (Fin 500) [''C'', ''X''] 0)
             = Fin (((ta - max t1 t2) / 2) + max t1 t2))
   \<and> PopulationSplit (Fin 1000) [''X'', ''C''] ''root''
       \<in> set (events dwg_replicate3_collapsed)
   \<and> has_divergence_time dwg_replicate3_collapsed ''C'' 0
   \<and> has_divergence_time dwg_replicate3_collapsed ''X'' 0
   \<and> ((1000 - max 0 0) / 2) + max 0 0 = (500 :: rat)"
proof -
  have h2: "\<forall>m \<in> set [dwg_collapsed3, dwg_topology3]. gene_flow_model m"
    by (simp add: gene_flow_model_def dwg_collapsed3_def dwg_topology3_def collapsed3_def
        topology3_def)
  have h3: "[dwg_replicate3, dwg_replicate3]
      \<in> set [[dwg_replicate3_collapsed, dwg_replicate3_collapsed],
               [dwg_replicate3, dwg_replicate3]]"
    by simp
  have h4: "dwg_replicate3 \<in> set [dwg_replicate3, dwg_replicate3]" by simp
  have h5: "SymmetricMigrationRateChange (Fin 700) [''C'', ''X''] 0 \<in> set (events dwg_replicate3)"
    by (simp add: dwg_replicate3_def)
  have h6: "has_rate (SymmetricMigrationRateChange t [''C'', ''X''] 0)" for t by simp
  have k3: "[dwg_replicate3_collapsed, dwg_replicate3_collapsed]
      \<in> set [[dwg_replicate3_collapsed, dwg_replicate3_collapsed],
               [dwg_replicate3, dwg_replicate3]]"
    by simp
  have k4: "dwg_replicate3_collapsed \<in> set [dwg_replicate3_collapsed, dwg_replicate3_collapsed]"
    by simp
  have k5: "SymmetricMigrationRateChange (Fin 500) [''C'', ''X''] 0
      \<in> set (events dwg_replicate3_collapsed)"
    by (simp add: dwg_replicate3_collapsed_def)
  have t: "PopulationSplit (Fin 1000) [''X'', ''C''] ''root'' \<in> set (events dwg_replicate3)"
    "has_divergence_time dwg_replicate3 ''C'' 0"
    "has_divergence_time dwg_replicate3 ''X'' 400"
    "((1000 - max 0 400) / 2) + max 0 400 = (700 :: rat)"
    "PopulationSplit (Fin 1000) [''X'', ''C''] ''root'' \<in> set (events dwg_replicate3_collapsed)"
    "has_divergence_time dwg_replicate3_collapsed ''C'' 0"
    "has_divergence_time dwg_replicate3_collapsed ''X'' 0"
    "((1000 - max 0 0) / 2) + max 0 0 = (500 :: rat)"
    by (simp_all add: has_divergence_time_def dwg_replicate3_def dwg_replicate3_collapsed_def
        topology3_def collapsed3_def)
  from h2 have h2': "list_all gene_flow_model [dwg_collapsed3, dwg_topology3]" by simp
  from gene_flow_start_time [OF draw_parameters_dwg_CX h2 h3 h4 h5 h6]
    gene_flow_start_time [OF draw_parameters_dwg_CX h2 k3 k4 k5 h6]
    build_models_CX draw_parameters_dwg_CX h2' h5 h6 k5 t
  show ?thesis by blast
qed
section \<open>Facts about the order of the reader\<close>

lemma ancestral_split_records: "map div_ancestral (split_records es) = ancestral_names es"
  by (induction es rule: split_records.induct) simp_all

lemma divs_ordered_split_records: "dependency_ordered es \<Longrightarrow> divs_ordered (split_records es)"
  by (induction es rule: split_records.induct) (simp_all add: ancestral_split_records)

lemma get_divinfo_loop_divergences:
  "get_divinfo_loop es divergence_times y = Inr y' \<Longrightarrow>
     yaml_divergences y' = yaml_divergences y @ split_records es"
proof (induction es divergence_times y rule: get_divinfo_loop.induct)
  case (1 divergence_times y)
  then show ?case by simp
next
  case (2 t d a es divergence_times y)
  from "2.prems" obtain prior where
    rest: "get_divinfo_loop es divergence_times
       (y\<lparr>yaml_divergences :=
              yaml_divergences y
              @ [\<lparr>div_derived = d, div_ancestral = a, div_time = ''Tdiv_'' @ a\<rparr>],
            yaml_priors := AList.update (''Tdiv_'' @ a) (of_prior prior) (yaml_priors y)\<rparr>) = Inr y'"
    by (auto simp: ebind_Inr_iff)
  from "2.IH" [OF rest] show ?case by simp
qed simp_all

lemma get_divinfo_divergences:
  "get_divinfo (r # rs) y divergence_times = Inr y' \<Longrightarrow>
     yaml_divergences y' = split_records (events r)"
  by (auto simp: get_divinfo_def ebind_Inr_iff at_index_Inr_iff
      dest: get_divinfo_loop_divergences)

text \<open>The dependency that the reader finds is a derived population that is an ancestral one.\<close>

lemma dependency_of_Some:
  "dependency_of derived ds dep = Some a \<Longrightarrow>
     dep = Some a \<or> (a \<in> set derived \<and> a \<in> set (map div_ancestral ds))"
  by (induction ds arbitrary: dep) (auto split: if_splits)

lemma map_of_find_fold:
  "distinct (map div_ancestral ds) \<Longrightarrow> d \<in> set ds \<Longrightarrow>
     map_of (fold (\<lambda>d deps. AList.update (div_ancestral d) (f d) deps) ds deps0) (div_ancestral d)
       = Some (f d)"
proof (induction ds arbitrary: deps0)
  case Nil
  then show ?case by simp
next
  case (Cons x ds)
  show ?case
  proof (cases "d \<in> set ds")
    case True
    with Cons show ?thesis by simp
  next
    case False
    with Cons.prems have dx: "d = x" and nx: "div_ancestral x \<notin> div_ancestral ` set ds" by auto
    have keep: "map_of (fold (\<lambda>d deps. AList.update (div_ancestral d) (f d) deps) ds deps1) k
                  = map_of deps1 k" if "k \<notin> div_ancestral ` set ds" for deps1 k
      using that by (induction ds arbitrary: deps1) (simp_all add: update_conv')
    from keep [OF nx] dx show ?thesis by (simp add: update_conv')
  qed
qed

lemma map_of_find_dependencies:
  "distinct (map div_ancestral ds) \<Longrightarrow> d \<in> set ds \<Longrightarrow>
     map_of (find_dependencies ds) (div_ancestral d) = Some (dependency_of (div_derived d) ds None)"
  unfolding find_dependencies_def by (rule map_of_find_fold)


lemma divs_ordered_distinct: "divs_ordered ds \<Longrightarrow> distinct (map div_ancestral ds)"
  by (induction ds) simp_all

lemma divs_ordered_append: "divs_ordered (pre @ suf) \<Longrightarrow> divs_ordered suf"
  by (induction pre) simp_all

lemma order_pass_all:
  assumes "divs_ordered (pre @ suf)"
  shows "order_pass (find_dependencies (pre @ suf)) suf (pre, map div_ancestral pre)
           = Inr (pre @ suf, map div_ancestral (pre @ suf))"
  using assms
proof (induction suf arbitrary: pre)
  case Nil
  then show ?case by simp
next
  case (Cons d suf)
  let ?divs = "pre @ d # suf"
  let ?dep = "dependency_of (div_derived d) ?divs None"
  from Cons.prems have dist: "distinct (map div_ancestral ?divs)"
    by (rule divs_ordered_distinct)
  have lk: "lookup (find_dependencies ?divs) (div_ancestral d) = Inr ?dep"
    using map_of_find_dependencies [OF dist, of d] by (simp add: lookup_Inr_iff)
  from dist have fresh: "div_ancestral d \<notin> set (map div_ancestral pre)" by auto
  from divs_ordered_append [OF Cons.prems]
  have later: "list_all (\<lambda>x. x \<noteq> div_ancestral d \<and> x \<notin> set (map div_ancestral suf)) (div_derived d)"
    by simp
  have dep: "?dep = None \<or> ?dep \<in> Some ` set (map div_ancestral pre)"
  proof (cases ?dep)
    case None
    then show ?thesis by simp
  next
    case (Some a)
    from dependency_of_Some [OF Some] have a: "a \<in> set (div_derived d)"
      "a \<in> set (map div_ancestral ?divs)" by simp_all
    from later a(1) have "a \<noteq> div_ancestral d" "a \<notin> set (map div_ancestral suf)"
      by (auto simp: list_all_iff)
    with a(2) have "a \<in> set (map div_ancestral pre)" by auto
    with Some show ?thesis by simp
  qed
  from Cons.prems have "divs_ordered ((pre @ [d]) @ suf)" by simp
  from Cons.IH [OF this] have rest:
    "order_pass (find_dependencies ?divs) suf (pre @ [d], map div_ancestral pre @ [div_ancestral d])
       = Inr (?divs, map div_ancestral ?divs)"
    by simp
  from dep fresh show ?case
    by (auto simp: lk ebind_simps rest)
qed

lemma divergence_list_ordered_id:
  assumes "divs_ordered ds"
  shows "divergence_list_ordered ds = Some (Inr ds)"
proof (cases ds)
  case Nil
  then show ?thesis by (simp add: divergence_list_ordered_def order_while.simps)
next
  case (Cons d ds')
  from order_pass_all [of "[]" ds] assms
  have pass: "order_pass (find_dependencies ds) ds ([], []) = Inr (ds, map div_ancestral ds)"
    by simp
  have lt: "length (fst (([], []) :: yaml_divergence list \<times> string list)) < length ds"
    using Cons by simp
  have "order_while (find_dependencies ds) ds ([], [])
          = order_while (find_dependencies ds) ds (ds, map div_ancestral ds)"
    by (subst order_while.simps) (simp only: lt if_True pass sum.case)
  also have "\<dots> = Some (Inr ds)"
    by (subst order_while.simps) simp
  finally show ?thesis by (simp add: divergence_list_ordered_def)
qed

text \<open>The reader gives the splits of the first replicate in the order they have there.\<close>

lemma reader_order_of_record:
  assumes "get_divinfo (r # rs) y divergence_times = Inr y'"
    and "dependency_ordered (events r)"
  shows "reader_order y' = Some (Inr (ancestral_names (events r)))"
proof -
  from get_divinfo_divergences [OF assms(1)]
  have d: "yaml_divergences y' = split_records (events r)" .
  from divs_ordered_split_records [OF assms(2)]
  have "divergence_list_ordered (split_records (events r)) = Some (Inr (split_records (events r)))"
    by (rule divergence_list_ordered_id)
  then show ?thesis by (simp add: reader_order_def d ancestral_split_records)
qed














text \<open>
  The divergences of a record are the splits of the first replicate, whichever of the
  three writers fills the record.
\<close>

lemma get_popinfo_loop_divergences:
  "get_popinfo_loop ps population_sizes y = Inr y' \<Longrightarrow> yaml_divergences y' = yaml_divergences y"
proof (induction ps population_sizes y rule: get_popinfo_loop.induct)
  case (1 population_sizes y)
  then show ?case by simp
next
  case (2 p ps population_sizes y)
  from "2.prems" obtain prior where
    rest: "get_popinfo_loop ps population_sizes
       (y\<lparr>yaml_populations :=
              yaml_populations y @ [\<lparr>pop_name = name p, pop_size = ''Ne_'' @ name p\<rparr>],
            yaml_priors := AList.update (''Ne_'' @ name p) (of_prior prior) (yaml_priors y)\<rparr>) = Inr y'"
    by (auto simp: ebind_Inr_iff)
  from "2.IH" [OF rest] show ?case by simp
qed











section \<open>The order of the reader and the order of the sampler\<close>



text \<open>
  The splits of the balanced tree ((A,B)X,(C,D)Y)root are not a single lineage, and
  \<open>build_models\<close> raises on this tree. In a gene-flow demography with these splits,
  written by hand, the sampler draws X, Y, root; with X drawn at 400 and Y at 100 the
  record lists Y before X and the reader reconstructs Y, X, root.
\<close>

lemma reader_order_balanced_gene_flow:
  "ebind (result (draw_parameters_dwg (config_of tree4 True) [dwg_topology4] times4 sizes4 rng0))
     (\<lambda>models. dwg_to_yaml (config_of tree4 True) sizes4 times4 (hd models)) = Inr dwg_schema4
   \<and> reader_order dwg_schema4 = Some (Inr [''Y'', ''X'', ''root''])
   \<and> sampler_order dwg_topology4 = [''X'', ''Y'', ''root'']
   \<and> reader_order dwg_schema4 \<noteq> Some (Inr (sampler_order dwg_topology4))"
proof -
  have r: "reader_order dwg_schema4 = Some (Inr [''Y'', ''X'', ''root''])"
    by (simp add: reader_order_def reader_defs schema_defs lookup_def ebind_simps)
  have s: "sampler_order dwg_topology4 = [''X'', ''Y'', ''root'']"
    by (simp add: sampler_order_def dwg_topology4_def topology4_def)
  from writer_gives_dwg_schema4 r s show ?thesis by simp
qed

section \<open>Facts about the relations of a record\<close>


















section \<open>Schema Writer: the relations of the migration times\<close>


text \<open>
  The tree ((A,B)X,C)root: the replicates of the secondary-contact topology that
  \<open>build_models\<close> stores, with X drawn at 400 and the root at 1000, and their record.
\<close>

lemma draw_parameters_sc3:
  "ebind (build_models (config_of tree3 True))
     (\<lambda>b. result (draw_parameters_sc (config_of tree3 True) (sc_demographies b)
                    times3 sizes3 rng0))
     = Inr [[sc_replicate3, sc_replicate3]]"
proof -
  from build_models_tree3 obtain b where b: "build_models (config_of tree3 True) = Inr b"
    and sc: "sc_demographies b = [sc_topology3]"
    by (cases "build_models (config_of tree3 True)") auto
  have "result (draw_parameters_sc (config_of tree3 True) [sc_topology3] times3 sizes3 rng0)
     = Inr [[sc_replicate3, sc_replicate3]]"
    by (simp add: result_def config_of_def sc_topology3_def sc_replicate3_def
      topology3_def sizes3_def times3_def run_defs eval_nat_numeral np_round_def rint_def
      del: uniform_size.simps draw_from_lows.simps)
  with b sc show ?thesis by (simp add: ebind_def)
qed



end
